theory Spec2Isabelle
  imports Main "HOL-Library.Word" "HOL-Library.Sublist"
begin

section \<open>JavaScript strings\<close>

text \<open>
  A JavaScript string is a sequence of UTF-16 code units; \<open>length\<close> counts code units and
  \<open>s[i]\<close> reads one. A string is modelled as a list of 16-bit words.
\<close>

type_synonym jschar = "16 word"
type_synonym jsstring = "jschar list"

definition js :: "string \<Rightarrow> jsstring" where
  "js s = map of_char s"

definition LF :: jschar where
  "LF = 0x0A"

definition CR :: jschar where
  "CR = 0x0D"

text \<open>
  The class \<open>\s\<close> of a regular expression and the characters removed by \<open>trim()\<close> are the
  same set: the WhiteSpace and LineTerminator productions of ECMAScript.
\<close>

definition isWhiteSpace :: "jschar \<Rightarrow> bool" where
  "isWhiteSpace c \<longleftrightarrow>
     c = 0x09 \<or> c = 0x0A \<or> c = 0x0B \<or> c = 0x0C \<or> c = 0x0D \<or> c = 0x20 \<or> c = 0xA0 \<or>
     c = 0x1680 \<or> (0x2000 \<le> c \<and> c \<le> 0x200A) \<or> c = 0x2028 \<or> c = 0x2029 \<or>
     c = 0x202F \<or> c = 0x205F \<or> c = 0x3000 \<or> c = 0xFEFF"

text \<open>\<open>s.trim()\<close>\<close>

definition trim :: "jsstring \<Rightarrow> jsstring" where
  "trim s = rev (dropWhile isWhiteSpace (rev (dropWhile isWhiteSpace s)))"

text \<open>\<open>s.match(/^\s*/)![0]\<close>: the pattern matches every string, at its start.\<close>

definition leadingWhiteSpace :: "jsstring \<Rightarrow> jsstring" where
  "leadingWhiteSpace s = takeWhile isWhiteSpace s"

text \<open>
  \<open>s.split(/\r?\n/)\<close>. The scan goes from left to right; at a carriage return followed by a
  line feed the separator is both, at a line feed alone it is the line feed, and any other
  code unit (a carriage return alone too) belongs to the current line. The empty string
  gives one empty line.
\<close>

fun consHead :: "jschar \<Rightarrow> jsstring list \<Rightarrow> jsstring list" where
  "consHead c [] = [[c]]"
| "consHead c (l # ls) = (c # l) # ls"

fun splitLines :: "jsstring \<Rightarrow> jsstring list" where
  "splitLines [] = [[]]"
| "splitLines [c] = (if c = LF then [[], []] else [[c]])"
| "splitLines (c # d # cs) =
     (if c = CR \<and> d = LF then [] # splitLines cs
      else if c = LF then [] # splitLines (d # cs)
      else consHead c (splitLines (d # cs)))"

text \<open>\<open>lines.join('\n')\<close>\<close>

fun joinLines :: "jsstring list \<Rightarrow> jsstring" where
  "joinLines [] = []"
| "joinLines [l] = l"
| "joinLines (l # m # ls) = l @ LF # joinLines (m # ls)"

section \<open>Indentation (both variants have the same three functions)\<close>

text \<open>
  The loop of the reducer in \<open>getCommonIndent\<close>:
  \<^verbatim>\<open>while (i < common.length && i < current.length && common[i] === current[i]) i++;\<close>
\<close>

function commonLoop :: "jsstring \<Rightarrow> jsstring \<Rightarrow> nat \<Rightarrow> nat" where
  "commonLoop common current i =
     (if i < length common \<and> i < length current \<and> common ! i = current ! i
      then commonLoop common current (Suc i) else i)"
  by pat_completeness auto
termination
  by (relation "measure (\<lambda>(common, current, i). length common - i)") auto

definition commonStep :: "jsstring \<Rightarrow> jsstring \<Rightarrow> jsstring" where
  "commonStep common current = take (commonLoop common current 0) common"

text \<open>
  \<open>getCommonIndent\<close>. The filter keeps the lines with \<open>line.trim().length > 0\<close>
  (\<open>nonBlank\<close>). \<open>reduce\<close> without an initial value starts from the first element; it is
  reached with a non-empty array only, since the empty one returns early.
\<close>

definition nonBlank :: "jsstring \<Rightarrow> bool" where
  "nonBlank line \<longleftrightarrow> length (trim line) > 0"

definition getCommonIndent :: "jsstring \<Rightarrow> jsstring" where
  "getCommonIndent text =
     (let lines = filter nonBlank (splitLines text) in
      if length lines = 0 then []
      else let indents = map leadingWhiteSpace lines in
           foldl commonStep (hd indents) (tl indents))"

text \<open>\<open>removeIndent\<close>: the empty string is falsy, so \<open>!indent\<close> holds for it only.\<close>

definition removeIndent :: "jsstring \<Rightarrow> jsstring \<Rightarrow> jsstring" where
  "removeIndent text indent =
     (if indent = [] then text
      else joinLines (map (\<lambda>line. if prefix indent line then drop (length indent) line else line)
                          (splitLines text)))"

definition addIndent :: "jsstring \<Rightarrow> jsstring \<Rightarrow> jsstring" where
  "addIndent text indent =
     (if indent = [] then text
      else joinLines (map (\<lambda>line. if length line > 0 then indent @ line else line)
                          (splitLines text)))"

text \<open>
  The round trip of a text: narrow removes the common indent of the selected text, and the
  write-back adds the same indent to what the detached buffer holds.
\<close>

definition roundTrip :: "jsstring \<Rightarrow> jsstring" where
  "roundTrip T = addIndent (removeIndent T (getCommonIndent T)) (getCommonIndent T)"

section \<open>Positions and ranges\<close>

text \<open>
  \<open>vscode.Position\<close> and \<open>vscode.Range\<close>: zero-based line and character (a count of UTF-16
  code units); the constructor of a position refuses negative numbers.
\<close>

record position =
  line :: nat
  character :: nat

record range =
  start :: position
  end' :: position

text \<open>
  The end of the range after a replacement, as the timer callback of the auto-sync variant
  computes it (\<open>extension.ts\<close>, lines 115 to 120). \<open>lines[lastLineIndex]\<close> is in range, since
  \<open>split\<close> returns at least one line.
\<close>

definition remapEnd_sync :: "position \<Rightarrow> jsstring \<Rightarrow> position" where
  "remapEnd_sync rangeStart textToRestore =
     (let lines = splitLines textToRestore;
          lastLineIndex = length lines - 1
      in \<lparr>line = line rangeStart + lastLineIndex,
          character = (if lastLineIndex = 0
                       then character rangeStart + length (lines ! lastLineIndex)
                       else length (lines ! lastLineIndex))\<rparr>)"

text \<open>The same computation as the widen command of the manual variant writes it (lines 104 to 108).\<close>

definition remapEnd_widen :: "position \<Rightarrow> jsstring \<Rightarrow> position" where
  "remapEnd_widen rangeStart textToRestore =
     (let lines = splitLines textToRestore
      in \<lparr>line = line rangeStart + length lines - 1,
          character = (if length lines = 1
                       then character rangeStart + length (lines ! 0)
                       else length (lines ! (length lines - 1)))\<rparr>)"

text \<open>
  The specification's \<open>remapRangeEnd\<close>, following its words: the replacement text is split on
  the line feed alone, and the end is computed from the number of lines and the last line.
\<close>

fun splitOnLF :: "jsstring \<Rightarrow> jsstring list" where
  "splitOnLF [] = [[]]"
| "splitOnLF (c # cs) = (if c = LF then [] # splitOnLF cs else consHead c (splitOnLF cs))"

definition remapRangeEnd_spec :: "position \<Rightarrow> jsstring \<Rightarrow> position" where
  "remapRangeEnd_spec rangeStart replacementText =
     (let ls = splitOnLF replacementText
      in if length ls = 1
         then \<lparr>line = line rangeStart, character = character rangeStart + length (hd ls)\<rparr>
         else \<lparr>line = line rangeStart + length ls - 1, character = length (last ls)\<rparr>)"

text \<open>
  \<open>new vscode.Range(a, b)\<close> swaps its arguments when \<open>a\<close> is after \<open>b\<close>.
\<close>

definition isBeforeOrEqual :: "position \<Rightarrow> position \<Rightarrow> bool" where
  "isBeforeOrEqual a b \<longleftrightarrow> line a < line b \<or> (line a = line b \<and> character a \<le> character b)"

definition mkRange :: "position \<Rightarrow> position \<Rightarrow> range" where
  "mkRange a b = (if isBeforeOrEqual a b then \<lparr>start = a, end' = b\<rparr> else \<lparr>start = b, end' = a\<rparr>)"

section \<open>The session and the host\<close>

text \<open>
  The variables that the closures of \<open>activate\<close> share. The manual variant declares the first
  four; the auto-sync variant adds the language of the source, a flag and the timer handle.
  A document is identified by the \<open>fsPath\<close> of its URI, and \<open>vscode.Uri.file(p).fsPath\<close> is
  taken to be \<open>p\<close>.
\<close>

type_synonym path = jsstring
type_synonym uri = jsstring

record session =
  activeOriginalUri :: "uri option"
  activeRange :: "range option"
  tempFilePath :: "path option"
  baseIndent :: jsstring
  originalLanguageId :: jsstring
  isSyncing :: bool
  syncTimer :: "nat option"

text \<open>\<open>if (tempFilePath)\<close>: \<open>undefined\<close> and the empty string are falsy.\<close>

definition truthy :: "jsstring option \<Rightarrow> bool" where
  "truthy v = (case v of None \<Rightarrow> False | Some s \<Rightarrow> s \<noteq> [])"

text \<open>
  What the code asks of the editor and of the file system. The texts of the messages are not
  modelled, only which message it is.
\<close>

datatype message = AlreadyNarrowed | UnsupportedExtension | Editing | NarrowMode jsstring | Synced

datatype request =
    WriteFileSync path jsstring
  | OpenTextDocument uri
  | SetTextDocumentLanguage uri jsstring
  | ShowTextDocument uri
  | CloseActiveEditor
  | RevertAndCloseActiveEditor
  | ApplyEdit uri range jsstring
  | SetSelection uri range
  | RevealRange uri range
  | UnlinkSync path
  | ShowWarningMessage message
  | ShowInformationMessage message
  | SetStatusBarMessage message
  | SetTimeout nat nat
  | ClearTimeout nat

text \<open>
  The active editor, as far as narrow reads it: its document (URI, file name, language, and
  \<open>getText(range)\<close>) and its selection. \<open>selection.isEmpty\<close> holds when start and end are equal.
\<close>

record editor =
  docUri :: uri
  docFileName :: path
  docLanguageId :: jsstring
  docGetText :: "range \<Rightarrow> jsstring"
  selection :: range

text \<open>
  The host during one command: what it answers to the reads of the command, which of the
  command's requests it fails by throwing (a rejected promise under \<open>await\<close>, or an exception of
  a synchronous \<open>fs\<close> call), and whether it accepts a workspace edit. The functions of Node's
  \<open>path\<close> module and \<open>toLowerCase\<close> are parameters too.
\<close>

record host =
  activeTextEditor :: "editor option"
  visibleTextEditors :: "uri list"
  getText :: "uri \<Rightarrow> jsstring"
  existsSync :: "path \<Rightarrow> bool"
  applyEdit :: "uri \<Rightarrow> range \<Rightarrow> jsstring \<Rightarrow> bool"
  throws :: "request \<Rightarrow> bool"
  basename :: "path \<Rightarrow> path"
  dirname :: "path \<Rightarrow> path"
  join :: "path \<Rightarrow> path \<Rightarrow> path"
  extname :: "path \<Rightarrow> jsstring"
  toLowerCase :: "jsstring \<Rightarrow> jsstring"

section \<open>Commands as programs over the session\<close>

text \<open>
  A command runs on the session and on the list of the requests made so far. It completes, or
  it stops at the request that threw; the assignments made before that stay. Nothing in
  either file catches an exception. A command is taken to run without another handler in
  between.
\<close>

record machine =
  sess :: session
  trace :: "request list"

datatype outcome = Completed | Threw

type_synonym prog = "machine \<Rightarrow> outcome \<times> machine"

definition skip :: prog where
  "skip m = (Completed, m)"

definition assign :: "(session \<Rightarrow> session) \<Rightarrow> prog" where
  "assign f m = (Completed, m\<lparr>sess := f (sess m)\<rparr>)"

text \<open>A request that cannot throw into the command (a message that is not awaited, a timer).\<close>

definition emit :: "request \<Rightarrow> prog" where
  "emit r m = (Completed, m\<lparr>trace := trace m @ [r]\<rparr>)"

text \<open>An awaited or synchronous request: it is made, and the command stops if it throws.\<close>

definition call :: "host \<Rightarrow> request \<Rightarrow> prog" where
  "call h r m = (if throws h r then Threw else Completed, m\<lparr>trace := trace m @ [r]\<rparr>)"

definition seq :: "prog \<Rightarrow> prog \<Rightarrow> prog" where
  "seq p q m = (case p m of (Completed, m') \<Rightarrow> q m' | (Threw, m') \<Rightarrow> (Threw, m'))"

fun block :: "prog list \<Rightarrow> prog" where
  "block [] = skip"
| "block (p # ps) = seq p (block ps)"

definition ifThen :: "bool \<Rightarrow> prog \<Rightarrow> prog" where
  "ifThen b p = (if b then p else skip)"

section \<open>The manual variant\<close>

text \<open>
  \<open>narrowCommand\<close> of the manual variant: refused while a temporary file path is set, a no-op
  without an editor or with an empty selection, refused for a file that is neither \<open>.js\<close> nor
  \<open>.html\<close>; otherwise the four variables are assigned, then the file is written and shown.
\<close>

definition narrowCommand_manual :: "host \<Rightarrow> prog" where
  "narrowCommand_manual h m =
     (if truthy (tempFilePath (sess m)) then emit (ShowWarningMessage AlreadyNarrowed) m
      else case activeTextEditor h of
        None \<Rightarrow> skip m
      | Some ed \<Rightarrow>
          if start (selection ed) = end' (selection ed) then skip m
          else if toLowerCase h (extname h (docFileName ed)) \<notin> set [js ''.js'', js ''.html'']
          then emit (ShowWarningMessage UnsupportedExtension) m
          else
            let rng = mkRange (start (selection ed)) (end' (selection ed));
                originalText = docGetText ed rng;
                indent = getCommonIndent originalText;
                cleanText = removeIndent originalText indent;
                fileName = basename h (docFileName ed);
                tmp = join h (dirname h (docFileName ed)) (js ''.narrow.'' @ fileName)
            in block
                 [assign (\<lambda>s. s\<lparr>activeOriginalUri := Some (docUri ed)\<rparr>),
                  assign (\<lambda>s. s\<lparr>activeRange := Some rng\<rparr>),
                  assign (\<lambda>s. s\<lparr>baseIndent := indent\<rparr>),
                  assign (\<lambda>s. s\<lparr>tempFilePath := Some tmp\<rparr>),
                  call h (WriteFileSync tmp cleanText),
                  call h (OpenTextDocument tmp),
                  call h (ShowTextDocument (docUri ed)),
                  call h CloseActiveEditor,
                  call h (ShowTextDocument tmp),
                  emit (SetStatusBarMessage Editing)] m)"

text \<open>
  \<open>widenCommand\<close> of the manual variant. The promise of \<open>applyEdit\<close> is awaited and its value
  is dropped: the host's answer \<open>applyEdit h\<close> does not occur below.
\<close>

definition widenCommand_manual :: "host \<Rightarrow> prog" where
  "widenCommand_manual h m =
     (case (tempFilePath (sess m), activeOriginalUri (sess m), activeRange (sess m)) of
        (Some tmp, Some u, Some r) \<Rightarrow>
          if tmp = [] then skip m
          else
            let editedText = getText h tmp;
                textToRestore = addIndent editedText (baseIndent (sess m));
                newRange = mkRange (start r) (remapEnd_widen (start r) textToRestore)
            in block
                 [call h (OpenTextDocument tmp),
                  call h (ApplyEdit u r textToRestore),
                  ifThen (tmp \<in> set (visibleTextEditors h))
                    (block [call h (ShowTextDocument tmp), call h RevertAndCloseActiveEditor]),
                  call h (OpenTextDocument u),
                  call h (ShowTextDocument u),
                  call h (SetSelection u newRange),
                  call h (RevealRange u newRange),
                  ifThen (existsSync h tmp) (call h (UnlinkSync tmp)),
                  assign (\<lambda>s. s\<lparr>tempFilePath := None\<rparr>),
                  assign (\<lambda>s. s\<lparr>activeOriginalUri := None\<rparr>),
                  assign (\<lambda>s. s\<lparr>activeRange := None\<rparr>),
                  emit (ShowInformationMessage Synced)] m
      | _ \<Rightarrow> skip m)"

section \<open>The auto-sync variant\<close>

text \<open>
  \<open>narrowCommand\<close> of the auto-sync variant: it does not look at the session before it assigns
  to it, and it accepts every file.
\<close>

definition narrowCommand_auto :: "host \<Rightarrow> prog" where
  "narrowCommand_auto h m =
     (case activeTextEditor h of
        None \<Rightarrow> skip m
      | Some ed \<Rightarrow>
          if start (selection ed) = end' (selection ed) then skip m
          else
            let rng = mkRange (start (selection ed)) (end' (selection ed));
                originalText = docGetText ed rng;
                indent = getCommonIndent originalText;
                cleanText = removeIndent originalText indent;
                fileName = basename h (docFileName ed);
                tmp = join h (dirname h (docFileName ed)) (js ''.narrow.'' @ fileName)
            in block
                 [assign (\<lambda>s. s\<lparr>activeOriginalUri := Some (docUri ed)\<rparr>),
                  assign (\<lambda>s. s\<lparr>activeRange := Some rng\<rparr>),
                  assign (\<lambda>s. s\<lparr>originalLanguageId := docLanguageId ed\<rparr>),
                  assign (\<lambda>s. s\<lparr>baseIndent := indent\<rparr>),
                  assign (\<lambda>s. s\<lparr>tempFilePath := Some tmp\<rparr>),
                  call h (WriteFileSync tmp cleanText),
                  call h (OpenTextDocument tmp),
                  call h (SetTextDocumentLanguage tmp (docLanguageId ed)),
                  call h (ShowTextDocument tmp),
                  call h (ShowTextDocument (docUri ed)),
                  call h CloseActiveEditor,
                  call h (ShowTextDocument tmp),
                  emit (SetStatusBarMessage (NarrowMode (docLanguageId ed)))] m)"

text \<open>\<open>widenCommand\<close> of the auto-sync variant: no write-back, only the clean-up.\<close>

definition widenCommand_auto :: "host \<Rightarrow> prog" where
  "widenCommand_auto h m =
     (case (tempFilePath (sess m), activeOriginalUri (sess m)) of
        (Some tmp, Some u) \<Rightarrow>
          if tmp = [] then skip m
          else block
                 [ifThen (tmp \<in> set (visibleTextEditors h))
                    (block [call h (ShowTextDocument tmp), call h RevertAndCloseActiveEditor]),
                  call h (OpenTextDocument u),
                  call h (ShowTextDocument u),
                  (case activeRange (sess m) of
                     None \<Rightarrow> skip
                   | Some r \<Rightarrow> block [call h (SetSelection u (mkRange (start r) (end' r))),
                                      call h (RevealRange u r)]),
                  ifThen (existsSync h tmp) (call h (UnlinkSync tmp)),
                  assign (\<lambda>s. s\<lparr>tempFilePath := None\<rparr>),
                  assign (\<lambda>s. s\<lparr>activeOriginalUri := None\<rparr>),
                  assign (\<lambda>s. s\<lparr>activeRange := None\<rparr>)] m
      | _ \<Rightarrow> skip m)"

text \<open>
  The callback that the change listener hands to \<open>setTimeout\<close>, run on the text that
  \<open>e.document.getText()\<close> returns when the timer fires. \<open>activeOriginalUri!\<close> and \<open>activeRange!\<close>
  are not checked by the code; a callback that finds one of them undefined is modelled as
  throwing.
\<close>

definition syncCallback :: "host \<Rightarrow> jsstring \<Rightarrow> prog" where
  "syncCallback h editedText m =
     (let textToRestore = addIndent editedText (baseIndent (sess m)) in
      case (activeOriginalUri (sess m), activeRange (sess m)) of
        (Some u, Some r) \<Rightarrow>
          block
            [assign (\<lambda>s. s\<lparr>isSyncing := True\<rparr>),
             call h (ApplyEdit u r textToRestore),
             ifThen (applyEdit h u r textToRestore)
               (assign (\<lambda>s. s\<lparr>activeRange :=
                               Some (mkRange (start r) (remapEnd_sync (start r) textToRestore))\<rparr>)),
             assign (\<lambda>s. s\<lparr>isSyncing := False\<rparr>)] m
      | _ \<Rightarrow> seq (assign (\<lambda>s. s\<lparr>isSyncing := True\<rparr>)) (\<lambda>m'. (Threw, m')) m)"

section \<open>Timers and the change listener\<close>

text \<open>
  The event loop, as far as the debounce needs it: a clock in milliseconds, the timers that
  are pending (handle, time due, and the document of the change event that the callback
  closes over), the next handle, and the current text of every document. A timer fires once
  the clock has reached its time; a callback that throws is an unhandled rejection and the
  loop goes on. The change events are those of the user's edits.
\<close>

record system =
  mach :: machine
  timers :: "(nat \<times> nat \<times> uri) list"
  nextTimer :: nat
  clock :: nat
  documents :: "uri \<Rightarrow> jsstring"

definition clearTimeout :: "nat \<Rightarrow> system \<Rightarrow> system" where
  "clearTimeout k y =
     y\<lparr>timers := filter (\<lambda>(k', due, doc). k' \<noteq> k) (timers y),
       mach := (mach y)\<lparr>trace := trace (mach y) @ [ClearTimeout k]\<rparr>\<rparr>"

text \<open>\<open>syncTimer = setTimeout(callback, delay)\<close>\<close>

definition setTimeout :: "uri \<Rightarrow> nat \<Rightarrow> system \<Rightarrow> system" where
  "setTimeout doc delay y =
     y\<lparr>timers := timers y @ [(nextTimer y, clock y + delay, doc)],
       nextTimer := Suc (nextTimer y),
       mach := (mach y)\<lparr>sess := (sess (mach y))\<lparr>syncTimer := Some (nextTimer y)\<rparr>,
                        trace := trace (mach y) @ [SetTimeout (nextTimer y) delay]\<rparr>\<rparr>"

definition onDidChangeTextDocument :: "uri \<Rightarrow> system \<Rightarrow> system" where
  "onDidChangeTextDocument doc y =
     (let s = sess (mach y) in
      if truthy (tempFilePath s) \<and> Some doc = tempFilePath s \<and>
         activeOriginalUri s \<noteq> None \<and> activeRange s \<noteq> None
      then setTimeout doc 300 (case syncTimer s of None \<Rightarrow> y | Some k \<Rightarrow> clearTimeout k y)
      else y)"

fun fireDue ::
  "host \<Rightarrow> nat \<Rightarrow> (uri \<Rightarrow> jsstring) \<Rightarrow> (nat \<times> nat \<times> uri) list \<Rightarrow> machine \<Rightarrow>
   (nat \<times> nat \<times> uri) list \<times> machine" where
  "fireDue h t docs [] m = ([], m)"
| "fireDue h t docs ((k, due, doc) # ps) m =
     (if due \<le> t then fireDue h t docs ps (snd (syncCallback h (docs doc) m))
      else (case fireDue h t docs ps m of (ps', m') \<Rightarrow> ((k, due, doc) # ps', m')))"

definition advance :: "host \<Rightarrow> nat \<Rightarrow> system \<Rightarrow> system" where
  "advance h t y =
     (case fireDue h t (documents y) (timers y) (mach y) of
        (ps, m) \<Rightarrow> y\<lparr>timers := ps, mach := m, clock := max (clock y) t\<rparr>)"

text \<open>The user's edit of a document at a time: the timers due by then fire first.\<close>

datatype event = Edit nat uri jsstring

fun step :: "host \<Rightarrow> system \<Rightarrow> event \<Rightarrow> system" where
  "step h y (Edit t doc txt) =
     onDidChangeTextDocument doc
       ((advance h t y)\<lparr>documents := (documents (advance h t y))(doc := txt)\<rparr>)"

definition run :: "host \<Rightarrow> system \<Rightarrow> event list \<Rightarrow> system" where
  "run h y es = foldl (step h) y es"

section \<open>Example values\<close>

text \<open>
  A host that accepts every request, for the concrete runs below, with \<open>basename\<close> and
  \<open>dirname\<close> as they are on paths with a directory and a file name; a source file \<open>/p/a.js\<close>
  whose narrowed session has the range (1,0) to (2,10), the indent of four spaces and the
  temporary file \<open>/p/.narrow.a.js\<close>.
\<close>

definition exampleHost :: host where
  "exampleHost =
     \<lparr>activeTextEditor = None, visibleTextEditors = [js ''/p/.narrow.a.js''],
      getText = (\<lambda>_. js ''foo();''), existsSync = (\<lambda>_. True),
      applyEdit = (\<lambda>_ _ _. True), throws = (\<lambda>_. False),
      basename = (\<lambda>p. rev (takeWhile (\<lambda>c. c \<noteq> 0x2F) (rev p))),
      dirname = (\<lambda>p. rev (drop 1 (dropWhile (\<lambda>c. c \<noteq> 0x2F) (rev p)))),
      join = (\<lambda>a b. a @ js ''/'' @ b), extname = (\<lambda>_. js ''.js''), toLowerCase = id\<rparr>"

definition exampleSession :: session where
  "exampleSession =
     \<lparr>activeOriginalUri = Some (js ''/p/a.js''),
      activeRange = Some \<lparr>start = \<lparr>line = 1, character = 0\<rparr>, end' = \<lparr>line = 2, character = 10\<rparr>\<rparr>,
      tempFilePath = Some (js ''/p/.narrow.a.js''),
      baseIndent = js ''    '', originalLanguageId = js ''javascript'',
      isSyncing = False, syncTimer = None\<rparr>"

definition exampleEditor :: editor where
  "exampleEditor =
     \<lparr>docUri = js ''/p/.narrow.a.js'', docFileName = js ''/p/.narrow.a.js'',
      docLanguageId = js ''javascript'', docGetText = (\<lambda>_. js ''  bar();''),
      selection = \<lparr>start = \<lparr>line = 1, character = 0\<rparr>, end' = \<lparr>line = 1, character = 8\<rparr>\<rparr>\<rparr>"

text \<open>
  A sequence of edits (time and new content) that stays within one quiet window after an edit
  at time \<open>t\<close>: each edit comes less than 300 ms after the one before it.
\<close>

fun withinQuietWindow :: "nat \<Rightarrow> (nat \<times> jsstring) list \<Rightarrow> bool" where
  "withinQuietWindow t [] = True"
| "withinQuietWindow t ((t', txt) # es) = (t \<le> t' \<and> t' < t + 300 \<and> withinQuietWindow t' es)"

text \<open>An example system: the example session, no timer pending, the clock at 1000.\<close>

definition exampleSystem :: system where
  "exampleSystem =
     \<lparr>mach = \<lparr>sess = exampleSession, trace = []\<rparr>, timers = [], nextTimer = 0, clock = 1000,
      documents = (\<lambda>_. js ''foo();'')\<rparr>"

section \<open>The common indent\<close>

declare commonLoop.simps [simp del]

lemma commonLoop_eq:
  "commonLoop a b i = i + length (longest_common_prefix (drop i a) (drop i b))"
proof (induction a b i rule: commonLoop.induct)
  case (1 a b i)
  show ?case
  proof (cases "i < length a \<and> i < length b \<and> a ! i = b ! i")
    case True
    then have ia: "i < length a" and ib: "i < length b" and eq: "a ! i = b ! i"
      by simp_all
    have da: "drop i a = a ! i # drop (Suc i) a"
      by (rule Cons_nth_drop_Suc [OF ia, symmetric])
    have db: "drop i b = a ! i # drop (Suc i) b"
      unfolding eq by (rule Cons_nth_drop_Suc [OF ib, symmetric])
    have "commonLoop a b i = commonLoop a b (Suc i)"
      using True by (subst commonLoop.simps) simp
    also have "\<dots> = Suc i + length (longest_common_prefix (drop (Suc i) a) (drop (Suc i) b))"
      using 1 True by simp
    finally show ?thesis by (simp add: da db)
  next
    case False
    have stop: "commonLoop a b i = i"
      by (subst commonLoop.simps) (simp only: False if_False)
    have "longest_common_prefix (drop i a) (drop i b) = []"
    proof (cases "i < length a \<and> i < length b")
      case True
      with False have "a ! i \<noteq> b ! i" by simp
      moreover have "drop i a = a ! i # drop (Suc i) a" "drop i b = b ! i # drop (Suc i) b"
        using True by (simp_all add: Cons_nth_drop_Suc del: drop_Suc)
      ultimately show ?thesis by simp
    next
      case False
      then have "drop i a = [] \<or> drop i b = []" by auto
      then show ?thesis by (cases "drop i a") auto
    qed
    with stop show ?thesis by simp
  qed
qed

lemma commonStep_lcp: "commonStep a b = longest_common_prefix a b"
proof -
  have "prefix (longest_common_prefix a b) a" by (rule longest_common_prefix_prefix1)
  then obtain r where "a = longest_common_prefix a b @ r" by (auto simp: prefix_def)
  then have "take (length (longest_common_prefix a b)) a = longest_common_prefix a b"
    by (metis append_eq_conv_conj)
  then show ?thesis by (simp add: commonStep_def commonLoop_eq)
qed

lemma foldl_commonStep_prefix_init: "prefix (foldl commonStep x xs) x"
proof (induction xs arbitrary: x)
  case Nil show ?case by simp
next
  case (Cons y ys)
  have "prefix (foldl commonStep (commonStep x y) ys) (commonStep x y)" by (rule Cons.IH)
  moreover have "prefix (commonStep x y) x" by (simp add: commonStep_lcp longest_common_prefix_prefix1)
  ultimately show ?case by (auto intro: prefix_order.trans)
qed

lemma foldl_commonStep_prefix_elem: "y \<in> set xs \<Longrightarrow> prefix (foldl commonStep x xs) y"
proof (induction xs arbitrary: x)
  case Nil then show ?case by simp
next
  case (Cons z zs)
  show ?case
  proof (cases "y = z")
    case True
    have "prefix (foldl commonStep (commonStep x z) zs) (commonStep x z)"
      by (rule foldl_commonStep_prefix_init)
    moreover have "prefix (commonStep x z) z"
      by (simp add: commonStep_lcp longest_common_prefix_prefix2)
    ultimately show ?thesis using True by (auto intro: prefix_order.trans)
  next
    case False
    with Cons.prems have "y \<in> set zs" by simp
    then show ?thesis using Cons.IH by simp
  qed
qed

lemma foldl_commonStep_max:
  "prefix p x \<Longrightarrow> (\<forall>y\<in>set xs. prefix p y) \<Longrightarrow> prefix p (foldl commonStep x xs)"
proof (induction xs arbitrary: x)
  case Nil then show ?case by simp
next
  case (Cons z zs)
  have "prefix p (commonStep x z)"
    using Cons.prems by (simp add: commonStep_lcp longest_common_prefix_max_prefix)
  then show ?case using Cons.IH Cons.prems by simp
qed

lemma getCommonIndent_none: "filter nonBlank (splitLines T) = [] \<Longrightarrow> getCommonIndent T = []"
  by (simp add: getCommonIndent_def)

lemma getCommonIndent_prefix:
  assumes "l \<in> set (splitLines T)" "nonBlank l"
  shows "prefix (getCommonIndent T) (leadingWhiteSpace l)"
proof -
  let ?ls = "filter nonBlank (splitLines T)"
  from assms have mem: "l \<in> set ?ls" by simp
  then obtain x xs where ls: "?ls = x # xs" by (cases ?ls) auto
  have g: "getCommonIndent T = foldl commonStep (leadingWhiteSpace x) (map leadingWhiteSpace xs)"
    by (simp add: getCommonIndent_def ls)
  from mem ls have "l = x \<or> l \<in> set xs" by auto
  then show ?thesis
  proof
    assume "l = x" then show ?thesis by (simp add: g foldl_commonStep_prefix_init)
  next
    assume "l \<in> set xs"
    then have "leadingWhiteSpace l \<in> set (map leadingWhiteSpace xs)" by simp
    then show ?thesis unfolding g by (rule foldl_commonStep_prefix_elem)
  qed
qed

lemma getCommonIndent_max:
  assumes ne: "\<exists>l\<in>set (splitLines T). nonBlank l"
    and p: "\<forall>l\<in>set (splitLines T). nonBlank l \<longrightarrow> prefix p (leadingWhiteSpace l)"
  shows "prefix p (getCommonIndent T)"
proof -
  let ?ls = "filter nonBlank (splitLines T)"
  from ne have "?ls \<noteq> []" by (auto simp: filter_empty_conv)
  then obtain x xs where ls: "?ls = x # xs" by (cases ?ls) auto
  have g: "getCommonIndent T = foldl commonStep (leadingWhiteSpace x) (map leadingWhiteSpace xs)"
    by (simp add: getCommonIndent_def ls)
  have "set (x # xs) = set ?ls" by (simp only: ls)
  then have sub: "set (x # xs) \<subseteq> {l \<in> set (splitLines T). nonBlank l}"
    by (simp only: set_filter subset_refl)
  have "prefix p (leadingWhiteSpace x)" using sub p by auto
  moreover have "\<forall>y\<in>set (map leadingWhiteSpace xs). prefix p y" using sub p by auto
  ultimately show ?thesis unfolding g by (rule foldl_commonStep_max)
qed

text \<open>
  C2. When the text has a non-blank line, \<open>getCommonIndent\<close> returns a prefix of the leading
  white space of every non-blank line, every string that is such a common prefix is a prefix
  of the result (so none is longer), and tabs and spaces are compared as the code units they
  are. When the text has no non-blank line, the result is the empty string.
\<close>

theorem getCommonIndent_longest_common_prefix:
  "((\<exists>l\<in>set (splitLines T). nonBlank l) \<longrightarrow>
      (\<forall>l\<in>set (splitLines T). nonBlank l \<longrightarrow> prefix (getCommonIndent T) (leadingWhiteSpace l)) \<and>
      (\<forall>p. (\<forall>l\<in>set (splitLines T). nonBlank l \<longrightarrow> prefix p (leadingWhiteSpace l)) \<longrightarrow>
           prefix p (getCommonIndent T) \<and> length p \<le> length (getCommonIndent T))) \<and>
   ((\<forall>l\<in>set (splitLines T). \<not> nonBlank l) \<longrightarrow> getCommonIndent T = [])"
proof (intro conjI impI allI ballI)
  fix l assume "l \<in> set (splitLines T)" "nonBlank l"
  then show "prefix (getCommonIndent T) (leadingWhiteSpace l)" by (rule getCommonIndent_prefix)
next
  fix p
  assume "\<exists>l\<in>set (splitLines T). nonBlank l"
    and "\<forall>l\<in>set (splitLines T). nonBlank l \<longrightarrow> prefix p (leadingWhiteSpace l)"
  then show pp: "prefix p (getCommonIndent T)" by (rule getCommonIndent_max)
  then show "length p \<le> length (getCommonIndent T)" by (rule prefix_length_le)
next
  assume "\<forall>l\<in>set (splitLines T). \<not> nonBlank l"
  then have "filter nonBlank (splitLines T) = []" by (simp add: filter_empty_conv)
  then show "getCommonIndent T = []" by (rule getCommonIndent_none)
qed


text \<open>A text with a tab in one indent and a carriage return before a line feed.\<close>

theorem getCommonIndent_longest_common_prefix_witness:
  "nonBlank (js '' '' @ [0x09] @ js ''foo'') \<and>
   prefix (getCommonIndent (js '' '' @ [0x09] @ js ''foo'' @ [CR, LF] @ js ''  bar'' @ [LF])) (js '' '' @ [0x09]) \<and>
   length (js '' '') \<le> length (getCommonIndent (js '' '' @ [0x09] @ js ''foo'' @ [CR, LF] @ js ''  bar'' @ [LF]))"
proof -
  let ?T = "js '' '' @ [0x09] @ js ''foo'' @ [CR, LF] @ js ''  bar'' @ [LF]"
  have Ls: "splitLines ?T = [js '' '' @ [0x09] @ js ''foo'', js ''  bar'', []]"
    by code_simp
  have nb: "nonBlank (js '' '' @ [0x09] @ js ''foo'')" "nonBlank (js ''  bar'')" "\<not> nonBlank []"
    by (simp_all add: nonBlank_def trim_def isWhiteSpace_def js_def)
  have lw: "leadingWhiteSpace (js '' '' @ [0x09] @ js ''foo'') = js '' '' @ [0x09]"
    "leadingWhiteSpace (js ''  bar'') = js ''  ''"
    by (simp_all add: leadingWhiteSpace_def isWhiteSpace_def js_def)
  have ex: "\<exists>l\<in>set [js '' '' @ [0x09] @ js ''foo'', js ''  bar'', []]. nonBlank l"
    using nb by simp
  note t = getCommonIndent_longest_common_prefix
    [of ?T, unfolded Ls, THEN conjunct1, rule_format, OF ex]
  have m: "js '' '' @ [0x09] @ js ''foo'' \<in> set [js '' '' @ [0x09] @ js ''foo'', js ''  bar'', []]"
    by simp
  have "prefix (getCommonIndent ?T) (leadingWhiteSpace (js '' '' @ [0x09] @ js ''foo''))"
    using m nb(1) by (rule t [THEN conjunct1, rule_format])
  then have "prefix (getCommonIndent ?T) (js '' '' @ [0x09])"
    by (simp only: lw)
  moreover have "\<forall>l\<in>set [js '' '' @ [0x09] @ js ''foo'', js ''  bar'', []].
                   nonBlank l \<longrightarrow> prefix (js '' '') (leadingWhiteSpace l)"
    using nb(3) by (simp add: leadingWhiteSpace_def isWhiteSpace_def js_def)
  then have "length (js '' '') \<le> length (getCommonIndent ?T)"
    by (rule t [THEN conjunct2, THEN spec, THEN mp, THEN conjunct2])
  ultimately show ?thesis using nb by blast
qed

section \<open>The empty indent\<close>

text \<open>
  C9. With the empty indent, \<open>removeIndent\<close> and \<open>addIndent\<close> return the text they are given,
  unchanged, whatever its line endings are.
\<close>

theorem empty_indent_identity:
  "removeIndent T [] = T \<and> addIndent T [] = T"
  by (simp add: removeIndent_def addIndent_def)

section \<open>Lines\<close>

lemma LF_neq_CR [simp]: "LF \<noteq> CR" "CR \<noteq> LF"
  by (simp_all add: LF_def CR_def)

lemma consHead_ne [simp]: "consHead c ls \<noteq> []"
  by (cases ls) simp_all

lemma length_consHead: "ls \<noteq> [] \<Longrightarrow> length (consHead c ls) = length ls"
  by (cases ls) simp_all

lemma last_consHead:
  "ls \<noteq> [] \<Longrightarrow> last (consHead c ls) = (if length ls = 1 then c # last ls else last ls)"
  by (cases ls) auto

lemma splitLines_ne [simp]: "splitLines s \<noteq> []"
  by (induction s rule: splitLines.induct) simp_all

lemma splitOnLF_ne [simp]: "splitOnLF s \<noteq> []"
  by (induction s) simp_all

lemma length_splitOnLF: "length (splitOnLF s) = Suc (count_list s LF)"
  by (induction s) (simp_all add: length_consHead)

lemma length_splitLines: "length (splitLines s) = Suc (count_list s LF)"
  by (induction s rule: splitLines.induct) (auto simp: length_consHead LF_def CR_def)

lemma last_splitLines: "last (splitLines s) = last (splitOnLF s)"
proof (induction s rule: splitLines.induct)
  case 1 show ?case by simp
next
  case (2 c) show ?case by simp
next
  case (3 c d cs)
  have len: "length (splitLines (d # cs)) = length (splitOnLF (d # cs))"
    by (simp only: length_splitLines length_splitOnLF)
  show ?case
  proof (cases "c = CR \<and> d = LF")
    case True
    then have "last (splitLines (c # d # cs)) = last (splitLines cs)" by simp
    also have "\<dots> = last (splitOnLF cs)" using 3 True by simp
    also have "\<dots> = last (splitOnLF (c # d # cs))" using True by (simp add: LF_def CR_def)
    finally show ?thesis .
  next
    case nocrlf: False
    show ?thesis
    proof (cases "c = LF")
      case True
      have "last (splitLines (c # d # cs)) = last (splitLines (d # cs))"
        unfolding True by simp
      also have "\<dots> = last (splitOnLF (d # cs))" using 3(2) True nocrlf by blast
      also have "\<dots> = last (splitOnLF (c # d # cs))" using True by simp
      finally show ?thesis .
    next
      case False
      have "last (splitLines (c # d # cs)) = last (consHead c (splitLines (d # cs)))"
        by (simp only: splitLines.simps nocrlf False if_False)
      also have "\<dots> = last (consHead c (splitOnLF (d # cs)))"
        using 3(3) [OF nocrlf False] len by (simp only: last_consHead splitLines_ne splitOnLF_ne not_False_eq_True)
      also have "\<dots> = last (splitOnLF (c # d # cs))" using False by simp
      finally show ?thesis .
    qed
  qed
qed

lemma nth_last: "xs \<noteq> [] \<Longrightarrow> xs ! (length xs - 1) = last xs"
  by (simp add: last_conv_nth)

lemma single_hd_last: "length xs = 1 \<Longrightarrow> hd xs = last xs \<and> xs ! 0 = last xs"
  by (cases xs) auto

lemma remapEnd_sync_spec: "remapEnd_sync p t = remapRangeEnd_spec p t"
proof -
  have len: "length (splitLines t) = length (splitOnLF t)"
    by (simp only: length_splitLines length_splitOnLF)
  have "splitLines t ! (length (splitLines t) - 1) = last (splitLines t)"
    by (rule nth_last) simp
  then have nth: "splitLines t ! (length (splitLines t) - 1) = last (splitOnLF t)"
    by (simp only: last_splitLines)
  show ?thesis
  proof (cases "length (splitOnLF t) = 1")
    case True
    then show ?thesis using len nth
      by (simp add: remapEnd_sync_def remapRangeEnd_spec_def Let_def single_hd_last)
  next
    case False
    moreover have "length (splitOnLF t) \<noteq> 0" by simp
    ultimately have "length (splitOnLF t) - 1 \<noteq> 0" by arith
    then show ?thesis using False len nth
      by (simp add: remapEnd_sync_def remapRangeEnd_spec_def Let_def)
  qed
qed

lemma remapEnd_widen_spec: "remapEnd_widen p t = remapRangeEnd_spec p t"
proof -
  have len: "length (splitLines t) = length (splitOnLF t)"
    by (simp only: length_splitLines length_splitOnLF)
  have "splitLines t ! (length (splitLines t) - 1) = last (splitLines t)"
    by (rule nth_last) simp
  then have nth: "splitLines t ! (length (splitLines t) - 1) = last (splitOnLF t)"
    by (simp only: last_splitLines)
  show ?thesis
  proof (cases "length (splitOnLF t) = 1")
    case True
    then have "splitLines t ! 0 = last (splitOnLF t)" using nth len by simp
    then show ?thesis using True len
      by (simp add: remapEnd_widen_def remapRangeEnd_spec_def Let_def single_hd_last)
  next
    case False
    then show ?thesis using len nth
      by (simp add: remapEnd_widen_def remapRangeEnd_spec_def Let_def)
  qed
qed

text \<open>
  C3. The end of the range after a replacement: both places of the code that compute it (the
  timer callback of the auto-sync variant and the widen command of the manual variant, which
  split on \<open>/\\r?\\n/\<close>) agree, for every start and every text, with the specification's
  \<open>remapRangeEnd\<close>, which splits on the line feed: a single line gives (start line, start
  column + its length), several lines give (start line + number of lines - 1, length of the
  last line). Start (2,4) with "ab\\ncd" gives (3,2), and start (5,0) with "xyz" gives (5,3).
\<close>

theorem remapRangeEnd_code_meets_spec:
  "remapEnd_sync p t = remapRangeEnd_spec p t \<and>
   remapEnd_widen p t = remapRangeEnd_spec p t \<and>
   remapRangeEnd_spec p t =
     (if length (splitOnLF t) = 1
      then \<lparr>line = line p, character = character p + length (hd (splitOnLF t))\<rparr>
      else \<lparr>line = line p + length (splitOnLF t) - 1, character = length (last (splitOnLF t))\<rparr>) \<and>
   remapEnd_sync \<lparr>line = 2, character = 4\<rparr> (js ''ab'' @ [LF] @ js ''cd'') = \<lparr>line = 3, character = 2\<rparr> \<and>
   remapEnd_widen \<lparr>line = 2, character = 4\<rparr> (js ''ab'' @ [LF] @ js ''cd'') = \<lparr>line = 3, character = 2\<rparr> \<and>
   remapEnd_sync \<lparr>line = 5, character = 0\<rparr> (js ''xyz'') = \<lparr>line = 5, character = 3\<rparr> \<and>
   remapEnd_widen \<lparr>line = 5, character = 0\<rparr> (js ''xyz'') = \<lparr>line = 5, character = 3\<rparr>"
proof (intro conjI)
  show "remapEnd_sync p t = remapRangeEnd_spec p t" by (rule remapEnd_sync_spec)
  show "remapEnd_widen p t = remapRangeEnd_spec p t" by (rule remapEnd_widen_spec)
  show "remapRangeEnd_spec p t =
     (if length (splitOnLF t) = 1
      then \<lparr>line = line p, character = character p + length (hd (splitOnLF t))\<rparr>
      else \<lparr>line = line p + length (splitOnLF t) - 1, character = length (last (splitOnLF t))\<rparr>)"
    by (simp add: remapRangeEnd_spec_def Let_def)
  show "remapEnd_sync \<lparr>line = 2, character = 4\<rparr> (js ''ab'' @ [LF] @ js ''cd'') = \<lparr>line = 3, character = 2\<rparr>"
    by (simp add: remapEnd_sync_def js_def LF_def CR_def)
  show "remapEnd_widen \<lparr>line = 2, character = 4\<rparr> (js ''ab'' @ [LF] @ js ''cd'') = \<lparr>line = 3, character = 2\<rparr>"
    by (simp add: remapEnd_widen_def js_def LF_def CR_def)
  show "remapEnd_sync \<lparr>line = 5, character = 0\<rparr> (js ''xyz'') = \<lparr>line = 5, character = 3\<rparr>"
    by (simp add: remapEnd_sync_def js_def LF_def CR_def)
  show "remapEnd_widen \<lparr>line = 5, character = 0\<rparr> (js ''xyz'') = \<lparr>line = 5, character = 3\<rparr>"
    by (simp add: remapEnd_widen_def js_def LF_def CR_def)
qed

section \<open>The round trip\<close>

lemma set_consHead: "l \<in> set (consHead c ls) \<Longrightarrow> set l \<subseteq> insert c (\<Union>(set ` set ls))"
  by (cases ls) auto

lemma splitLines_no_LF: "l \<in> set (splitLines s) \<Longrightarrow> LF \<notin> set l"
proof (induction s arbitrary: l rule: splitLines.induct)
  case 1 then show ?case by simp
next
  case (2 c) then show ?case by (auto split: if_splits)
next
  case (3 c d cs)
  show ?case
  proof (cases "c = CR \<and> d = LF")
    case True
    then have "l = [] \<or> l \<in> set (splitLines cs)" using 3(4) by auto
    then show ?thesis using 3(1) True by auto
  next
    case nocrlf: False
    show ?thesis
    proof (cases "c = LF")
      case True
      then have "l = [] \<or> l \<in> set (splitLines (d # cs))" using 3(4) nocrlf by auto
      then show ?thesis using 3(2) [OF nocrlf True] by auto
    next
      case False
      then have "l \<in> set (consHead c (splitLines (d # cs)))"
        using 3(4) nocrlf by (simp only: splitLines.simps if_False)
      then have "set l \<subseteq> insert c (\<Union>(set ` set (splitLines (d # cs))))"
        by (rule set_consHead)
      moreover have "LF \<notin> \<Union>(set ` set (splitLines (d # cs)))"
        using 3(3) [OF nocrlf False] by blast
      ultimately show ?thesis using False by auto
    qed
  qed
qed

lemma splitLines_single: "LF \<notin> set l \<Longrightarrow> splitLines l = [l]"
  by (induction l rule: splitLines.induct) auto

lemma splitLines_append_LF:
  "LF \<notin> set l \<Longrightarrow> (l \<noteq> [] \<longrightarrow> last l \<noteq> CR) \<Longrightarrow> splitLines (l @ LF # r) = l # splitLines r"
proof (induction l)
  case Nil
  show ?case by (cases r) simp_all
next
  case (Cons c l')
  from Cons.prems have cLF: "c \<noteq> LF" and l'LF: "LF \<notin> set l'" by auto
  have l'CR: "l' \<noteq> [] \<longrightarrow> last l' \<noteq> CR" using Cons.prems by auto
  have IH: "splitLines (l' @ LF # r) = l' # splitLines r" using Cons.IH l'LF l'CR by blast
  obtain d cs where dcs: "l' @ LF # r = d # cs" by (cases "l' @ LF # r") auto
  have nocrlf: "\<not> (c = CR \<and> d = LF)"
  proof
    assume a: "c = CR \<and> d = LF"
    have "l' = []"
    proof (cases l')
      case Nil then show ?thesis .
    next
      case (Cons x xs)
      with dcs have "x = d" by simp
      with a Cons l'LF show ?thesis by simp
    qed
    with Cons.prems a show False by simp
  qed
  have "splitLines ((c # l') @ LF # r) = splitLines (c # d # cs)" using dcs by simp
  also have "\<dots> = consHead c (splitLines (d # cs))"
    by (simp only: splitLines.simps nocrlf cLF if_False)
  also have "\<dots> = (c # l') # splitLines r" using IH dcs by simp
  finally show ?case .
qed

lemma splitLines_joinLines:
  "ls \<noteq> [] \<Longrightarrow> (\<forall>l\<in>set ls. LF \<notin> set l) \<Longrightarrow>
   (\<forall>l\<in>set (butlast ls). l \<noteq> [] \<longrightarrow> last l \<noteq> CR) \<Longrightarrow> splitLines (joinLines ls) = ls"
proof (induction ls rule: joinLines.induct)
  case 1 then show ?case by simp
next
  case (2 l) then show ?case by (simp add: splitLines_single)
next
  case (3 l m ls)
  have "splitLines (joinLines (m # ls)) = m # ls" using 3 by simp
  moreover have "splitLines (l @ LF # joinLines (m # ls)) = l # splitLines (joinLines (m # ls))"
    using 3(2,3,4) by (intro splitLines_append_LF) auto
  ultimately show ?case by simp
qed

lemma nonBlank_has_char: "nonBlank l \<Longrightarrow> \<exists>x\<in>set l. \<not> isWhiteSpace x"
proof -
  assume "nonBlank l"
  have "dropWhile isWhiteSpace l \<noteq> []"
  proof
    assume "dropWhile isWhiteSpace l = []"
    then have "trim l = []" by (simp only: trim_def rev.simps dropWhile.simps)
    with \<open>nonBlank l\<close> show False by (simp add: nonBlank_def)
  qed
  then show ?thesis by (simp only: dropWhile_eq_Nil_conv) blast
qed

lemma nonBlank_leading_shorter: "nonBlank l \<Longrightarrow> length (leadingWhiteSpace l) < length l"
proof -
  assume "nonBlank l"
  then have "\<exists>x\<in>set l. \<not> isWhiteSpace x" by (rule nonBlank_has_char)
  then have "takeWhile isWhiteSpace l \<noteq> l" by (simp add: takeWhile_eq_all_conv)
  moreover have "length (takeWhile isWhiteSpace l) \<le> length l" by (rule length_takeWhile_le)
  moreover have "length (takeWhile isWhiteSpace l) = length l \<Longrightarrow> takeWhile isWhiteSpace l = l"
    by (metis takeWhile_eq_take take_all order_refl)
  ultimately show ?thesis unfolding leadingWhiteSpace_def by linarith
qed

lemma prefix_leading: "prefix (leadingWhiteSpace l) l"
  unfolding leadingWhiteSpace_def by (metis prefixI takeWhile_dropWhile_id)


lemma butlast_CR_map:
  assumes "\<forall>l\<in>set (butlast ls). l \<noteq> [] \<longrightarrow> last l \<noteq> CR"
    and "\<And>l. f l \<noteq> [] \<Longrightarrow> l \<noteq> [] \<and> last (f l) = last l"
  shows "\<forall>l\<in>set (butlast (map f ls)). l \<noteq> [] \<longrightarrow> last l \<noteq> CR"
proof -
  have "butlast (map f ls) = map f (butlast ls)" by (rule map_butlast [symmetric])
  then show ?thesis using assms by auto
qed

lemma removeIndent_lines:
  assumes I: "I \<noteq> []"
    and cr: "\<forall>l\<in>set (butlast (splitLines T)). l \<noteq> [] \<longrightarrow> last l \<noteq> CR"
  shows "splitLines (removeIndent T I) =
         map (\<lambda>line. if prefix I line then drop (length I) line else line) (splitLines T)"
proof -
  let ?f = "\<lambda>line. if prefix I line then drop (length I) line else line"
  have a: "map ?f (splitLines T) \<noteq> []" by simp
  have b: "\<forall>l\<in>set (map ?f (splitLines T)). LF \<notin> set l"
    using splitLines_no_LF by (auto dest: in_set_dropD)
  have c: "\<forall>l\<in>set (butlast (map ?f (splitLines T))). l \<noteq> [] \<longrightarrow> last l \<noteq> CR"
    using cr by (rule butlast_CR_map) (auto split: if_splits)
  have "splitLines (joinLines (map ?f (splitLines T))) = map ?f (splitLines T)"
    using a b c by (rule splitLines_joinLines)
  then show ?thesis using I by (simp add: removeIndent_def)
qed

lemma addIndent_lines:
  assumes I: "I \<noteq> []" and lf: "LF \<notin> set I"
    and cr: "\<forall>l\<in>set (butlast (splitLines S)). l \<noteq> [] \<longrightarrow> last l \<noteq> CR"
  shows "splitLines (addIndent S I) =
         map (\<lambda>line. if length line > 0 then I @ line else line) (splitLines S)"
proof -
  let ?g = "\<lambda>line. if length line > 0 then I @ line else line"
  have a: "map ?g (splitLines S) \<noteq> []" by simp
  have b: "\<forall>l\<in>set (map ?g (splitLines S)). LF \<notin> set l"
    using splitLines_no_LF lf by auto
  have c: "\<forall>l\<in>set (butlast (map ?g (splitLines S))). l \<noteq> [] \<longrightarrow> last l \<noteq> CR"
    using cr by (rule butlast_CR_map) (auto split: if_splits)
  have "splitLines (joinLines (map ?g (splitLines S))) = map ?g (splitLines S)"
    using a b c by (rule splitLines_joinLines)
  then show ?thesis using I by (simp add: addIndent_def)
qed

lemma getCommonIndent_prefix_line:
  assumes "l \<in> set (splitLines T)" "nonBlank l"
  shows "prefix (getCommonIndent T) l"
proof -
  have "prefix (getCommonIndent T) (leadingWhiteSpace l)"
    using assms by (rule getCommonIndent_prefix)
  then show ?thesis using prefix_leading prefix_order.trans by blast
qed

lemma getCommonIndent_shorter:
  assumes "l \<in> set (splitLines T)" "nonBlank l"
  shows "length (getCommonIndent T) < length l"
proof -
  have "prefix (getCommonIndent T) (leadingWhiteSpace l)"
    using assms by (rule getCommonIndent_prefix)
  then have "length (getCommonIndent T) \<le> length (leadingWhiteSpace l)"
    by (rule prefix_length_le)
  then show ?thesis using nonBlank_leading_shorter [OF assms(2)] by linarith
qed

lemma getCommonIndent_no_LF: "LF \<notin> set (getCommonIndent T)"
proof (cases "filter nonBlank (splitLines T)")
  case Nil
  then show ?thesis by (simp add: getCommonIndent_none)
next
  case (Cons l ls)
  then have "l \<in> set (filter nonBlank (splitLines T))" by simp
  then have mem: "l \<in> set (splitLines T)" and nb: "nonBlank l" by simp_all
  have "prefix (getCommonIndent T) l" using mem nb by (rule getCommonIndent_prefix_line)
  then have "set (getCommonIndent T) \<subseteq> set l" by (rule set_mono_prefix)
  then show ?thesis using splitLines_no_LF [OF mem] by blast
qed

lemma roundtrip_lines:
  assumes cr: "getCommonIndent T = [] \<or>
               (\<forall>l\<in>set (butlast (splitLines T)). l \<noteq> [] \<longrightarrow> last l \<noteq> CR)"
  shows "splitLines (addIndent (removeIndent T (getCommonIndent T)) (getCommonIndent T)) =
         map (\<lambda>line. if length (if prefix (getCommonIndent T) line
                                  then drop (length (getCommonIndent T)) line else line) > 0
                      then getCommonIndent T @
                           (if prefix (getCommonIndent T) line
                            then drop (length (getCommonIndent T)) line else line)
                      else [])
             (splitLines T)"
proof (cases "getCommonIndent T = []")
  case True
  then show ?thesis by (simp add: removeIndent_def addIndent_def map_idI)
next
  case False
  let ?I = "getCommonIndent T"
  let ?f = "\<lambda>line. if prefix ?I line then drop (length ?I) line else line"
  let ?g = "\<lambda>line. if length line > 0 then ?I @ line else line"
  from cr False have cr': "\<forall>l\<in>set (butlast (splitLines T)). l \<noteq> [] \<longrightarrow> last l \<noteq> CR" by simp
  have r: "splitLines (removeIndent T ?I) = map ?f (splitLines T)"
    using False cr' by (rule removeIndent_lines)
  have "\<forall>l\<in>set (butlast (map ?f (splitLines T))). l \<noteq> [] \<longrightarrow> last l \<noteq> CR"
    using cr' by (rule butlast_CR_map) (auto split: if_splits)
  then have cr'': "\<forall>l\<in>set (butlast (splitLines (removeIndent T ?I))). l \<noteq> [] \<longrightarrow> last l \<noteq> CR"
    by (simp only: r)
  have "splitLines (addIndent (removeIndent T ?I) ?I) = map ?g (splitLines (removeIndent T ?I))"
    using False getCommonIndent_no_LF cr'' by (rule addIndent_lines)
  also have "\<dots> = map ?g (map ?f (splitLines T))" by (simp only: r)
  finally show ?thesis by (simp add: comp_def)
qed


text \<open>
  C1, as amended. Let \<open>I\<close> be the common indent of \<open>T\<close>. When \<open>I\<close> is empty, or no line of \<open>T\<close> but
  the last ends in a carriage return, the round trip has as many lines as \<open>T\<close>, and line by
  line: a non-blank line of \<open>T\<close> comes back exactly; an empty line comes back empty; a line of
  white space only comes back empty when it is \<open>I\<close> itself, unchanged when it is longer and
  starts with \<open>I\<close>, and with \<open>I\<close> put in front of it otherwise.
\<close>

theorem roundtrip_nonblank_lines:
  fixes T :: jsstring
  defines "I \<equiv> getCommonIndent T"
  defines "Ls \<equiv> splitLines T"
  defines "R \<equiv> splitLines (roundTrip T)"
  assumes cr: "I = [] \<or> (\<forall>l\<in>set (butlast Ls). l \<noteq> [] \<longrightarrow> last l \<noteq> CR)"
  shows "length R = length Ls \<and>
         (\<forall>i<length Ls.
            (nonBlank (Ls ! i) \<longrightarrow> R ! i = Ls ! i) \<and>
            (Ls ! i = [] \<longrightarrow> R ! i = []) \<and>
            (\<not> nonBlank (Ls ! i) \<and> Ls ! i \<noteq> [] \<longrightarrow>
               R ! i = (if Ls ! i = I then [] else if prefix I (Ls ! i) then Ls ! i else I @ Ls ! i)))"
proof -
  let ?h = "\<lambda>line. if length (if prefix I line then drop (length I) line else line) > 0
                    then I @ (if prefix I line then drop (length I) line else line)
                    else []"
  have R: "R = map ?h Ls"
    unfolding R_def Ls_def I_def roundTrip_def
    using cr [unfolded I_def Ls_def] by (rule roundtrip_lines)
  have len: "length R = length Ls" by (simp add: R)
  have line: "(nonBlank (Ls ! i) \<longrightarrow> R ! i = Ls ! i) \<and>
            (Ls ! i = [] \<longrightarrow> R ! i = []) \<and>
            (\<not> nonBlank (Ls ! i) \<and> Ls ! i \<noteq> [] \<longrightarrow>
               R ! i = (if Ls ! i = I then [] else if prefix I (Ls ! i) then Ls ! i else I @ Ls ! i))"
    if i: "i < length Ls" for i
  proof -
    let ?l = "Ls ! i"
    have Ri: "R ! i = ?h ?l" using i by (simp add: R)
    have mem: "?l \<in> set (splitLines T)" using i by (simp add: Ls_def)
    have nb: "R ! i = ?l" if "nonBlank ?l"
    proof -
      have p: "prefix I ?l" unfolding I_def using mem that by (rule getCommonIndent_prefix_line)
      have "length I < length ?l" unfolding I_def using mem that by (rule getCommonIndent_shorter)
      moreover have "I @ drop (length I) ?l = ?l" using p by (auto simp: prefix_def)
      ultimately show ?thesis using p by (simp add: Ri)
    qed
    have em: "R ! i = []" if "?l = []" using that by (simp add: Ri)
    have bl: "R ! i = (if ?l = I then [] else if prefix I ?l then ?l else I @ ?l)" if "?l \<noteq> []"
    proof (cases "prefix I ?l")
      case True
      then obtain r where r: "?l = I @ r" by (auto simp: prefix_def)
      then show ?thesis using True by (simp add: Ri)
    next
      case False
      then have "?l \<noteq> I" by auto
      then show ?thesis using False that by (simp add: Ri)
    qed
    show ?thesis using nb em bl by blast
  qed
  show ?thesis using len line by blast
qed

text \<open>A text with the five kinds of line: its lines come back as the theorem says.\<close>

theorem roundtrip_nonblank_lines_witness:
  "splitLines (roundTrip (js ''  foo'' @ [LF] @ js ''  '' @ [LF] @ js '' '' @ [LF, LF] @ js ''    bar'')) ! 0 = js ''  foo'' \<and>
   splitLines (roundTrip (js ''  foo'' @ [LF] @ js ''  '' @ [LF] @ js '' '' @ [LF, LF] @ js ''    bar'')) ! 1 = [] \<and>
   splitLines (roundTrip (js ''  foo'' @ [LF] @ js ''  '' @ [LF] @ js '' '' @ [LF, LF] @ js ''    bar'')) ! 2 = js ''   '' \<and>
   splitLines (roundTrip (js ''  foo'' @ [LF] @ js ''  '' @ [LF] @ js '' '' @ [LF, LF] @ js ''    bar'')) ! 3 = [] \<and>
   splitLines (roundTrip (js ''  foo'' @ [LF] @ js ''  '' @ [LF] @ js '' '' @ [LF, LF] @ js ''    bar'')) ! 4 = js ''    bar''"
proof -
  let ?T = "js ''  foo'' @ [LF] @ js ''  '' @ [LF] @ js '' '' @ [LF, LF] @ js ''    bar''"
  have Ls: "splitLines ?T = [js ''  foo'', js ''  '', js '' '', [], js ''    bar'']"
    by code_simp
  have I: "getCommonIndent ?T = js ''  ''"
    by code_simp
  have h: "getCommonIndent ?T = [] \<or> (\<forall>l\<in>set (butlast (splitLines ?T)). l \<noteq> [] \<longrightarrow> last l \<noteq> CR)"
    unfolding Ls by (simp add: js_def CR_def)
  have nb: "nonBlank (js ''  foo'')" "\<not> nonBlank (js ''  '')" "\<not> nonBlank (js '' '')"
    "nonBlank (js ''    bar'')"
    by (simp_all add: nonBlank_def trim_def isWhiteSpace_def js_def)
  note t = roundtrip_nonblank_lines [OF h, THEN conjunct2, rule_format, unfolded Ls I]
  have "splitLines (roundTrip ?T) ! 0 = js ''  foo''" using t [of 0] nb by simp
  moreover have "splitLines (roundTrip ?T) ! 1 = []" using t [of 1] nb by (simp add: js_def)
  moreover have "splitLines (roundTrip ?T) ! 2 = js ''   ''" using t [of 2] nb by (simp add: js_def)
  moreover have "splitLines (roundTrip ?T) ! 3 = []" using t [of 3] by simp
  moreover have "splitLines (roundTrip ?T) ! 4 = js ''    bar''" using t [of 4] nb by simp
  ultimately show ?thesis by blast
qed

text \<open>
  C1, as stated, fails on the text " a\\r\\r\\n\\t\\n b" (common indent: one space). Its first line
  " a\\r" is not blank and comes back as " a": the carriage return left at the end of the
  line joins the line feed of \<open>join\<close> when the text is split again. Its second line, a tab, is
  blank and comes back as a space and a tab, not as an empty line.
\<close>

theorem roundtrip_blank_line_counterexample:
  "nonBlank (splitLines (js '' a'' @ [CR, CR, LF, 0x09, LF] @ js '' b'') ! 0) \<and>
   splitLines (roundTrip (js '' a'' @ [CR, CR, LF, 0x09, LF] @ js '' b'')) ! 0 \<noteq>
     splitLines (js '' a'' @ [CR, CR, LF, 0x09, LF] @ js '' b'') ! 0 \<and>
   \<not> nonBlank (splitLines (js '' a'' @ [CR, CR, LF, 0x09, LF] @ js '' b'') ! 1) \<and>
   splitLines (roundTrip (js '' a'' @ [CR, CR, LF, 0x09, LF] @ js '' b'')) ! 1 \<noteq> []"
  by code_simp

section \<open>The timer callback of the auto-sync variant\<close>

lemmas prog_defs = skip_def assign_def emit_def call_def seq_def ifThen_def

lemma remapEnd_sync_after: "isBeforeOrEqual p (remapEnd_sync p t)"
  by (simp add: isBeforeOrEqual_def remapEnd_sync_def Let_def)

lemma remapEnd_widen_after: "isBeforeOrEqual p (remapEnd_widen p t)"
proof -
  have "length (splitLines t) \<noteq> 0" by simp
  then obtain n where n: "length (splitLines t) = Suc n" by (cases "length (splitLines t)") auto
  show ?thesis
    by (cases n) (simp_all add: isBeforeOrEqual_def remapEnd_widen_def Let_def n)
qed

lemma mkRange_sync: "mkRange p (remapEnd_sync p t) = \<lparr>start = p, end' = remapEnd_sync p t\<rparr>"
  by (simp add: mkRange_def remapEnd_sync_after)

lemma mkRange_widen: "mkRange p (remapEnd_widen p t) = \<lparr>start = p, end' = remapEnd_widen p t\<rparr>"
  by (simp add: mkRange_def remapEnd_widen_after)

lemma syncCallback_active:
  assumes "activeOriginalUri (sess m) = Some u" "activeRange (sess m) = Some r"
  shows "syncCallback h txt m =
     (let t = addIndent txt (baseIndent (sess m)) in
      if throws h (ApplyEdit u r t)
      then (Threw, m\<lparr>sess := (sess m)\<lparr>isSyncing := True\<rparr>, trace := trace m @ [ApplyEdit u r t]\<rparr>)
      else if applyEdit h u r t
      then (Completed, m\<lparr>sess := (sess m)\<lparr>activeRange := Some \<lparr>start = start r, end' = remapEnd_sync (start r) t\<rparr>,
                                          isSyncing := False\<rparr>,
                         trace := trace m @ [ApplyEdit u r t]\<rparr>)
      else (Completed, m\<lparr>sess := (sess m)\<lparr>isSyncing := False\<rparr>, trace := trace m @ [ApplyEdit u r t]\<rparr>))"
  using assms by (simp add: syncCallback_def Let_def prog_defs mkRange_sync)

text \<open>
  C6. In the auto-sync variant, with a session that is active when the callback runs: the
  callback asks for one replace-edit of the tracked range; the temporary file path, the
  source and the indent stay as they are, so the session stays narrowed; and the tracked
  range becomes (its start, the remapped end) when the edit is accepted, and stays what it
  was when the host rejects the edit (\<open>applyEdit\<close> gives false) or the request throws.
\<close>

theorem sync_rejected_leaves_range:
  assumes u: "activeOriginalUri (sess m) = Some u" and r: "activeRange (sess m) = Some r"
  shows "trace (snd (syncCallback h txt m)) =
           trace m @ [ApplyEdit u r (addIndent txt (baseIndent (sess m)))] \<and>
         tempFilePath (sess (snd (syncCallback h txt m))) = tempFilePath (sess m) \<and>
         activeOriginalUri (sess (snd (syncCallback h txt m))) = Some u \<and>
         baseIndent (sess (snd (syncCallback h txt m))) = baseIndent (sess m) \<and>
         activeRange (sess (snd (syncCallback h txt m))) =
           (if applyEdit h u r (addIndent txt (baseIndent (sess m))) \<and>
               \<not> throws h (ApplyEdit u r (addIndent txt (baseIndent (sess m))))
            then Some \<lparr>start = start r,
                       end' = remapEnd_sync (start r) (addIndent txt (baseIndent (sess m)))\<rparr>
            else Some r)"
  using u r by (simp add: syncCallback_active [OF u r] Let_def)

text \<open>A rejected and an accepted edit of the example session.\<close>

theorem sync_rejected_leaves_range_witness:
  "activeRange (sess (snd (syncCallback (exampleHost\<lparr>applyEdit := (\<lambda>_ _ _. False)\<rparr>) (js ''baz();'')
       \<lparr>sess = exampleSession, trace = []\<rparr>))) =
     Some \<lparr>start = \<lparr>line = 1, character = 0\<rparr>, end' = \<lparr>line = 2, character = 10\<rparr>\<rparr> \<and>
   tempFilePath (sess (snd (syncCallback (exampleHost\<lparr>applyEdit := (\<lambda>_ _ _. False)\<rparr>) (js ''baz();'')
       \<lparr>sess = exampleSession, trace = []\<rparr>))) = Some (js ''/p/.narrow.a.js'') \<and>
   activeRange (sess (snd (syncCallback exampleHost (js ''baz();'')
       \<lparr>sess = exampleSession, trace = []\<rparr>))) =
     Some \<lparr>start = \<lparr>line = 1, character = 0\<rparr>, end' = \<lparr>line = 1, character = 10\<rparr>\<rparr>"
proof -
  let ?m = "\<lparr>sess = exampleSession, trace = []\<rparr>"
  let ?r = "\<lparr>start = \<lparr>line = 1, character = 0\<rparr>, end' = \<lparr>line = 2, character = 10\<rparr>\<rparr>"
  have u: "activeOriginalUri (sess ?m) = Some (js ''/p/a.js'')"
    and r: "activeRange (sess ?m) = Some ?r"
    by (simp_all add: exampleSession_def)
  have e: "remapEnd_sync \<lparr>line = 1, character = 0\<rparr> (addIndent (js ''baz();'') (js ''    '')) =
           \<lparr>line = 1, character = 10\<rparr>"
    by code_simp
  show ?thesis
    using sync_rejected_leaves_range [OF u r, of "exampleHost\<lparr>applyEdit := (\<lambda>_ _ _. False)\<rparr>" "js ''baz();''"]
      sync_rejected_leaves_range [OF u r, of exampleHost "js ''baz();''"] e
    by (simp add: exampleSession_def exampleHost_def)
qed

text \<open>
  C5, as amended. The selection "    foo();\\n    bar();" has the indent of four spaces and
  the detached buffer gets "foo();\\nbar();". With that indent and the buffer edited to
  "foo();\\nbaz();\\nqux();", the callback asks to replace the tracked range by
  "    foo();\\n    baz();\\n    qux();", and once the edit is accepted the tracked range ends
  at (start line + 2, 10): the last line has four spaces and the six code units of "qux();".
\<close>

theorem sync_scenario:
  assumes u: "activeOriginalUri (sess m) = Some u" and r: "activeRange (sess m) = Some r"
    and b: "baseIndent (sess m) = getCommonIndent (js ''    foo();'' @ [LF] @ js ''    bar();'')"
  shows "baseIndent (sess m) = js ''    '' \<and>
         removeIndent (js ''    foo();'' @ [LF] @ js ''    bar();'') (baseIndent (sess m)) =
           js ''foo();'' @ [LF] @ js ''bar();'' \<and>
         trace (snd (syncCallback h (js ''foo();'' @ [LF] @ js ''baz();'' @ [LF] @ js ''qux();'') m)) =
           trace m @ [ApplyEdit u r (js ''    foo();'' @ [LF] @ js ''    baz();'' @ [LF] @ js ''    qux();'')] \<and>
         (applyEdit h u r (js ''    foo();'' @ [LF] @ js ''    baz();'' @ [LF] @ js ''    qux();'') \<and>
          \<not> throws h (ApplyEdit u r (js ''    foo();'' @ [LF] @ js ''    baz();'' @ [LF] @ js ''    qux();'')) \<longrightarrow>
            activeRange (sess (snd (syncCallback h
                (js ''foo();'' @ [LF] @ js ''baz();'' @ [LF] @ js ''qux();'') m))) =
              Some \<lparr>start = start r, end' = \<lparr>line = line (start r) + 2, character = 10\<rparr>\<rparr>)"
proof -
  have i: "getCommonIndent (js ''    foo();'' @ [LF] @ js ''    bar();'') = js ''    ''"
    by code_simp
  have s: "removeIndent (js ''    foo();'' @ [LF] @ js ''    bar();'') (js ''    '') =
           js ''foo();'' @ [LF] @ js ''bar();''"
    by code_simp
  have a: "addIndent (js ''foo();'' @ [LF] @ js ''baz();'' @ [LF] @ js ''qux();'') (js ''    '') =
           js ''    foo();'' @ [LF] @ js ''    baz();'' @ [LF] @ js ''    qux();''"
    by code_simp
  have l: "splitLines (js ''    foo();'' @ [LF] @ js ''    baz();'' @ [LF] @ js ''    qux();'') =
           [js ''    foo();'', js ''    baz();'', js ''    qux();'']"
    by code_simp
  have e: "remapEnd_sync p (js ''    foo();'' @ [LF] @ js ''    baz();'' @ [LF] @ js ''    qux();'') =
           \<lparr>line = line p + 2, character = 10\<rparr>" for p
    unfolding remapEnd_sync_def l by (simp add: js_def)
  have bi: "baseIndent (sess m) = js ''    ''" using b i by simp
  show ?thesis
    using u r by (simp only: bi s a e syncCallback_active [OF u r] Let_def) simp
qed

text \<open>The scenario on the example session, whose range starts on line 1.\<close>

theorem sync_scenario_witness:
  "trace (snd (syncCallback exampleHost (js ''foo();'' @ [LF] @ js ''baz();'' @ [LF] @ js ''qux();'')
      \<lparr>sess = exampleSession, trace = []\<rparr>)) =
     [ApplyEdit (js ''/p/a.js'')
        \<lparr>start = \<lparr>line = 1, character = 0\<rparr>, end' = \<lparr>line = 2, character = 10\<rparr>\<rparr>
        (js ''    foo();'' @ [LF] @ js ''    baz();'' @ [LF] @ js ''    qux();'')] \<and>
   activeRange (sess (snd (syncCallback exampleHost
      (js ''foo();'' @ [LF] @ js ''baz();'' @ [LF] @ js ''qux();'')
      \<lparr>sess = exampleSession, trace = []\<rparr>))) =
     Some \<lparr>start = \<lparr>line = 1, character = 0\<rparr>, end' = \<lparr>line = 3, character = 10\<rparr>\<rparr>"
proof -
  let ?m = "\<lparr>sess = exampleSession, trace = []\<rparr>"
  let ?r = "\<lparr>start = \<lparr>line = 1, character = 0\<rparr>, end' = \<lparr>line = 2, character = 10\<rparr>\<rparr>"
  have u: "activeOriginalUri (sess ?m) = Some (js ''/p/a.js'')"
    and r: "activeRange (sess ?m) = Some ?r"
    by (simp_all add: exampleSession_def)
  have i: "getCommonIndent (js ''    foo();'' @ [LF] @ js ''    bar();'') = js ''    ''"
    by code_simp
  have b: "baseIndent (sess ?m) = getCommonIndent (js ''    foo();'' @ [LF] @ js ''    bar();'')"
    unfolding i by (simp add: exampleSession_def)
  show ?thesis
    using sync_scenario [OF u r b, of exampleHost]
    by (simp add: exampleHost_def)
qed

text \<open>
  C5, as stated, gives the end (start line + 2, 9). On the example session the range after
  the write-back is not the one that ends at (1 + 2, 9).
\<close>

theorem sync_scenario_end_counterexample:
  "activeRange (sess (snd (syncCallback exampleHost
      (js ''foo();'' @ [LF] @ js ''baz();'' @ [LF] @ js ''qux();'')
      \<lparr>sess = exampleSession, trace = []\<rparr>))) \<noteq>
     Some \<lparr>start = \<lparr>line = 1, character = 0\<rparr>, end' = \<lparr>line = 1 + 2, character = 9\<rparr>\<rparr>"
proof -
  let ?m = "\<lparr>sess = exampleSession, trace = []\<rparr>"
  let ?r = "\<lparr>start = \<lparr>line = 1, character = 0\<rparr>, end' = \<lparr>line = 2, character = 10\<rparr>\<rparr>"
  let ?txt = "js ''foo();'' @ [LF] @ js ''baz();'' @ [LF] @ js ''qux();''"
  have u: "activeOriginalUri (sess ?m) = Some (js ''/p/a.js'')"
    and r: "activeRange (sess ?m) = Some ?r"
    and b: "baseIndent (sess ?m) = js ''    ''"
    by (simp_all add: exampleSession_def)
  have a: "addIndent ?txt (js ''    '') =
           js ''    foo();'' @ [LF] @ js ''    baz();'' @ [LF] @ js ''    qux();''"
    by code_simp
  have l: "splitLines (js ''    foo();'' @ [LF] @ js ''    baz();'' @ [LF] @ js ''    qux();'') =
           [js ''    foo();'', js ''    baz();'', js ''    qux();'']"
    by code_simp
  have e: "remapEnd_sync (start ?r)
             (js ''    foo();'' @ [LF] @ js ''    baz();'' @ [LF] @ js ''    qux();'') =
           \<lparr>line = 3, character = 10\<rparr>"
    unfolding remapEnd_sync_def l by (simp add: js_def)
  note c = syncCallback_active [OF u r, of exampleHost ?txt, unfolded b a Let_def e]
  have "activeRange (sess (snd (syncCallback exampleHost ?txt ?m))) =
     Some \<lparr>start = \<lparr>line = 1, character = 0\<rparr>, end' = \<lparr>line = 3, character = 10\<rparr>\<rparr>"
    unfolding c by (simp add: exampleHost_def)
  then show ?thesis by simp
qed

section \<open>A second narrow\<close>

text \<open>
  In the manual variant a narrow command that finds the temporary file path set shows a
  warning and changes nothing in the session. In the auto-sync variant a narrow command
  changes nothing when there is no editor or the selection is empty.
\<close>

lemma narrowCommand_manual_active:
  "truthy (tempFilePath (sess m)) \<Longrightarrow>
   narrowCommand_manual h m = (Completed, m\<lparr>trace := trace m @ [ShowWarningMessage AlreadyNarrowed]\<rparr>)"
  by (simp add: narrowCommand_manual_def emit_def)

lemma narrowCommand_auto_idle_editor:
  "activeTextEditor h = None \<or>
   (\<exists>ed. activeTextEditor h = Some ed \<and> start (selection ed) = end' (selection ed)) \<Longrightarrow>
   narrowCommand_auto h m = (Completed, m)"
  by (auto simp add: narrowCommand_auto_def skip_def)

text \<open>
  C4 says that a narrow command invoked while a session is active leaves the tracked range,
  the indent and the temporary file path of that session as they are, in both variants. The
  auto-sync variant does not do so: with the example session active and the user's selection
  (1,0) to (1,8) in the detached buffer \<open>/p/.narrow.a.js\<close>, \<open>narrowCommand\<close> replaces the path
  \<open>/p/.narrow.a.js\<close> by \<open>/p/.narrow..narrow.a.js\<close>, the range (1,0) to (2,10) by (1,0) to (1,8),
  and the indent of four spaces by the indent of two spaces of the selected text.
\<close>

theorem narrow_auto_overwrites_session:
  "tempFilePath exampleSession = Some (js ''/p/.narrow.a.js'') \<and>
   tempFilePath (sess (snd (narrowCommand_auto (exampleHost\<lparr>activeTextEditor := Some exampleEditor\<rparr>)
      \<lparr>sess = exampleSession, trace = []\<rparr>))) = Some (js ''/p/.narrow..narrow.a.js'') \<and>
   activeRange exampleSession =
     Some \<lparr>start = \<lparr>line = 1, character = 0\<rparr>, end' = \<lparr>line = 2, character = 10\<rparr>\<rparr> \<and>
   activeRange (sess (snd (narrowCommand_auto (exampleHost\<lparr>activeTextEditor := Some exampleEditor\<rparr>)
      \<lparr>sess = exampleSession, trace = []\<rparr>))) =
     Some \<lparr>start = \<lparr>line = 1, character = 0\<rparr>, end' = \<lparr>line = 1, character = 8\<rparr>\<rparr> \<and>
   baseIndent exampleSession = js ''    '' \<and>
   baseIndent (sess (snd (narrowCommand_auto (exampleHost\<lparr>activeTextEditor := Some exampleEditor\<rparr>)
      \<lparr>sess = exampleSession, trace = []\<rparr>))) = js ''  ''"
proof -
  have i: "getCommonIndent (js ''  bar();'') = js ''  ''" by code_simp
  show ?thesis
    by (simp add: narrowCommand_auto_def exampleHost_def exampleSession_def exampleEditor_def
        Let_def prog_defs mkRange_def isBeforeOrEqual_def i)
       (simp add: js_def)
qed

section \<open>Widen\<close>

lemma widenCommand_auto_run:
  assumes "tempFilePath (sess m) = Some tmp" "tmp \<noteq> []" "activeOriginalUri (sess m) = Some u"
    "activeRange (sess m) = Some r" "\<forall>q. q \<noteq> UnlinkSync tmp \<longrightarrow> \<not> throws h q"
  shows "widenCommand_auto h m =
    (if existsSync h tmp \<and> throws h (UnlinkSync tmp)
     then (Threw, m\<lparr>trace := trace m @
              (if tmp \<in> set (visibleTextEditors h)
               then [ShowTextDocument tmp, RevertAndCloseActiveEditor] else []) @
              [OpenTextDocument u, ShowTextDocument u,
               SetSelection u (mkRange (start r) (end' r)), RevealRange u r, UnlinkSync tmp]\<rparr>)
     else (Completed,
           m\<lparr>sess := (sess m)\<lparr>tempFilePath := None, activeOriginalUri := None, activeRange := None\<rparr>,
             trace := trace m @
              (if tmp \<in> set (visibleTextEditors h)
               then [ShowTextDocument tmp, RevertAndCloseActiveEditor] else []) @
              [OpenTextDocument u, ShowTextDocument u,
               SetSelection u (mkRange (start r) (end' r)), RevealRange u r] @
              (if existsSync h tmp then [UnlinkSync tmp] else [])\<rparr>))"
  using assms by (simp add: widenCommand_auto_def prog_defs)

lemma widenCommand_manual_run:
  assumes "tempFilePath (sess m) = Some tmp" "tmp \<noteq> []" "activeOriginalUri (sess m) = Some u"
    "activeRange (sess m) = Some r" "\<forall>q. q \<noteq> UnlinkSync tmp \<longrightarrow> \<not> throws h q"
  shows "widenCommand_manual h m =
    (let t = addIndent (getText h tmp) (baseIndent (sess m));
         nr = \<lparr>start = start r, end' = remapEnd_widen (start r) t\<rparr>;
         before = trace m @ [OpenTextDocument tmp, ApplyEdit u r t] @
              (if tmp \<in> set (visibleTextEditors h)
               then [ShowTextDocument tmp, RevertAndCloseActiveEditor] else []) @
              [OpenTextDocument u, ShowTextDocument u, SetSelection u nr, RevealRange u nr]
     in if existsSync h tmp \<and> throws h (UnlinkSync tmp)
     then (Threw, m\<lparr>trace := before @ [UnlinkSync tmp]\<rparr>)
     else (Completed,
           m\<lparr>sess := (sess m)\<lparr>tempFilePath := None, activeOriginalUri := None, activeRange := None\<rparr>,
             trace := before @ (if existsSync h tmp then [UnlinkSync tmp] else []) @
                      [ShowInformationMessage Synced]\<rparr>))"
  using assms by (simp add: widenCommand_manual_def prog_defs Let_def mkRange_widen)

text \<open>
  C7, as amended. For a widen command of either variant with an active session, when no
  other request of the command throws: if the temporary file is absent (no deletion is then
  tried) or \<open>unlinkSync\<close> returns, the command completes and the temporary file path, the
  source and the tracked range are reset; if the file exists and \<open>unlinkSync\<close> throws, the
  command stops there, before the three assignments, and the session is as it was.
\<close>

theorem widen_clears_unless_unlink_throws:
  assumes tmp: "tempFilePath (sess m) = Some tmp" and ne: "tmp \<noteq> []"
    and u: "activeOriginalUri (sess m) = Some u" and r: "activeRange (sess m) = Some r"
    and others: "\<forall>q. q \<noteq> UnlinkSync tmp \<longrightarrow> \<not> throws h q"
  shows "(\<not> (existsSync h tmp \<and> throws h (UnlinkSync tmp)) \<longrightarrow>
            fst (widenCommand_auto h m) = Completed \<and>
            sess (snd (widenCommand_auto h m)) =
              (sess m)\<lparr>tempFilePath := None, activeOriginalUri := None, activeRange := None\<rparr> \<and>
            fst (widenCommand_manual h m) = Completed \<and>
            sess (snd (widenCommand_manual h m)) =
              (sess m)\<lparr>tempFilePath := None, activeOriginalUri := None, activeRange := None\<rparr>) \<and>
         (existsSync h tmp \<and> throws h (UnlinkSync tmp) \<longrightarrow>
            fst (widenCommand_auto h m) = Threw \<and> sess (snd (widenCommand_auto h m)) = sess m \<and>
            fst (widenCommand_manual h m) = Threw \<and> sess (snd (widenCommand_manual h m)) = sess m)"
  by (simp add: widenCommand_auto_run [OF tmp ne u r others]
      widenCommand_manual_run [OF tmp ne u r others] Let_def)

text \<open>
  The example session: cleared by the auto-sync variant when the file is gone, cleared by the
  manual variant when the deletion works, and kept by the manual variant when it throws.
\<close>

theorem widen_clears_unless_unlink_throws_witness:
  "sess (snd (widenCommand_auto
      (exampleHost\<lparr>existsSync := (\<lambda>_. False), throws := (\<lambda>q. q = UnlinkSync (js ''/p/.narrow.a.js''))\<rparr>)
      \<lparr>sess = exampleSession, trace = []\<rparr>)) =
     exampleSession\<lparr>tempFilePath := None, activeOriginalUri := None, activeRange := None\<rparr> \<and>
   sess (snd (widenCommand_manual exampleHost \<lparr>sess = exampleSession, trace = []\<rparr>)) =
     exampleSession\<lparr>tempFilePath := None, activeOriginalUri := None, activeRange := None\<rparr> \<and>
   sess (snd (widenCommand_manual
      (exampleHost\<lparr>throws := (\<lambda>q. q = UnlinkSync (js ''/p/.narrow.a.js''))\<rparr>)
      \<lparr>sess = exampleSession, trace = []\<rparr>)) = exampleSession"
proof -
  let ?m = "\<lparr>sess = exampleSession, trace = []\<rparr>"
  let ?tmp = "js ''/p/.narrow.a.js''"
  let ?r = "\<lparr>start = \<lparr>line = 1, character = 0\<rparr>, end' = \<lparr>line = 2, character = 10\<rparr>\<rparr>"
  let ?h1 = "exampleHost\<lparr>existsSync := (\<lambda>_. False), throws := (\<lambda>q. q = UnlinkSync ?tmp)\<rparr>"
  let ?h3 = "exampleHost\<lparr>throws := (\<lambda>q. q = UnlinkSync ?tmp)\<rparr>"
  have tmp: "tempFilePath (sess ?m) = Some ?tmp" and ne: "?tmp \<noteq> []"
    and u: "activeOriginalUri (sess ?m) = Some (js ''/p/a.js'')"
    and r: "activeRange (sess ?m) = Some ?r"
    by (simp_all add: exampleSession_def js_def)
  have o1: "\<forall>q. q \<noteq> UnlinkSync ?tmp \<longrightarrow> \<not> throws ?h1 q"
    and o2: "\<forall>q. q \<noteq> UnlinkSync ?tmp \<longrightarrow> \<not> throws exampleHost q"
    and o3: "\<forall>q. q \<noteq> UnlinkSync ?tmp \<longrightarrow> \<not> throws ?h3 q"
    by (simp_all add: exampleHost_def)
  show ?thesis
    using widen_clears_unless_unlink_throws [OF tmp ne u r o1]
      widen_clears_unless_unlink_throws [OF tmp ne u r o2]
      widen_clears_unless_unlink_throws [OF tmp ne u r o3]
    by (simp add: exampleHost_def)
qed

text \<open>
  C7, as stated, fails: with the example session, the temporary file present and an
  \<open>unlinkSync\<close> that throws, the widen command of the auto-sync variant leaves the temporary
  file path, the source and the tracked range set.
\<close>

theorem widen_unlink_throws_counterexample:
  "tempFilePath (sess (snd (widenCommand_auto
      (exampleHost\<lparr>throws := (\<lambda>q. q = UnlinkSync (js ''/p/.narrow.a.js''))\<rparr>)
      \<lparr>sess = exampleSession, trace = []\<rparr>))) = Some (js ''/p/.narrow.a.js'') \<and>
   activeOriginalUri (sess (snd (widenCommand_auto
      (exampleHost\<lparr>throws := (\<lambda>q. q = UnlinkSync (js ''/p/.narrow.a.js''))\<rparr>)
      \<lparr>sess = exampleSession, trace = []\<rparr>))) = Some (js ''/p/a.js'') \<and>
   activeRange (sess (snd (widenCommand_auto
      (exampleHost\<lparr>throws := (\<lambda>q. q = UnlinkSync (js ''/p/.narrow.a.js''))\<rparr>)
      \<lparr>sess = exampleSession, trace = []\<rparr>))) =
     Some \<lparr>start = \<lparr>line = 1, character = 0\<rparr>, end' = \<lparr>line = 2, character = 10\<rparr>\<rparr>"
  by (simp add: widenCommand_auto_def exampleHost_def exampleSession_def prog_defs js_def)




section \<open>The debounce\<close>

lemma syncCallback_trace:
  assumes "activeOriginalUri (sess m) = Some u" "activeRange (sess m) = Some r"
  shows "trace (snd (syncCallback h txt m)) =
         trace m @ [ApplyEdit u r (addIndent txt (baseIndent (sess m)))]"
  by (simp add: syncCallback_active [OF assms] Let_def)

lemma step_first:
  assumes tmp: "tempFilePath (sess (mach y)) = Some tmp" and ne: "tmp \<noteq> []"
    and u: "activeOriginalUri (sess (mach y)) = Some u" and r: "activeRange (sess (mach y)) = Some r"
    and idle: "timers y = []" and clk: "clock y \<le> t"
  shows "step h y (Edit t tmp txt) =
     y\<lparr>mach := \<lparr>sess = (sess (mach y))\<lparr>syncTimer := Some (nextTimer y)\<rparr>,
                trace = trace (mach y) @
                  (case syncTimer (sess (mach y)) of None \<Rightarrow> [] | Some k \<Rightarrow> [ClearTimeout k]) @
                  [SetTimeout (nextTimer y) 300]\<rparr>,
       timers := [(nextTimer y, t + 300, tmp)],
       nextTimer := Suc (nextTimer y),
       clock := t,
       documents := (documents y)(tmp := txt)\<rparr>"
  using assms
  by (cases "syncTimer (sess (mach y))")
     (simp_all add: advance_def onDidChangeTextDocument_def setTimeout_def clearTimeout_def
       truthy_def Let_def max_def)

lemma step_pending:
  assumes tmp: "tempFilePath (sess (mach y)) = Some tmp" and ne: "tmp \<noteq> []"
    and u: "activeOriginalUri (sess (mach y)) = Some u" and r: "activeRange (sess (mach y)) = Some r"
    and pend: "timers y = [(k, due, tmp)]" and st: "syncTimer (sess (mach y)) = Some k"
    and clk: "clock y \<le> t" and early: "t < due"
  shows "step h y (Edit t tmp txt) =
     y\<lparr>mach := \<lparr>sess = (sess (mach y))\<lparr>syncTimer := Some (nextTimer y)\<rparr>,
                trace = trace (mach y) @ [ClearTimeout k, SetTimeout (nextTimer y) 300]\<rparr>,
       timers := [(nextTimer y, t + 300, tmp)],
       nextTimer := Suc (nextTimer y),
       clock := t,
       documents := (documents y)(tmp := txt)\<rparr>"
  using assms
  by (simp add: advance_def onDidChangeTextDocument_def setTimeout_def clearTimeout_def
       truthy_def Let_def max_def)

lemma run_pending:
  assumes "tempFilePath (sess (mach y)) = Some tmp" "tmp \<noteq> []"
    "activeOriginalUri (sess (mach y)) = Some u" "activeRange (sess (mach y)) = Some r"
    "timers y = [(nextTimer y - 1, clock y + 300, tmp)]"
    "syncTimer (sess (mach y)) = Some (nextTimer y - 1)" "0 < nextTimer y"
    "withinQuietWindow (clock y) es"
  shows "run h y (map (\<lambda>(t, txt). Edit t tmp txt) es) =
     y\<lparr>mach := \<lparr>sess = (sess (mach y))\<lparr>syncTimer := Some (nextTimer y + length es - 1)\<rparr>,
                trace = trace (mach y) @
                  concat (map (\<lambda>i. [ClearTimeout (nextTimer y - 1 + i), SetTimeout (nextTimer y + i) 300])
                              [0..<length es])\<rparr>,
       timers := [(nextTimer y + length es - 1, fst (last ((clock y, documents y tmp) # es)) + 300, tmp)],
       nextTimer := nextTimer y + length es,
       clock := fst (last ((clock y, documents y tmp) # es)),
       documents := (documents y)(tmp := snd (last ((clock y, documents y tmp) # es)))\<rparr>"
  using assms
proof (induction es arbitrary: y)
  case Nil
  then show ?case by (simp add: run_def)
next
  case (Cons e es)
  obtain t c where e: "e = (t, c)" by (cases e)
  from Cons.prems e have clk: "clock y \<le> t" and early: "t < clock y + 300"
    and rest: "withinQuietWindow t es" by simp_all
  define y1 where "y1 = step h y (Edit t tmp c)"
  have s1: "y1 =
     y\<lparr>mach := \<lparr>sess = (sess (mach y))\<lparr>syncTimer := Some (nextTimer y)\<rparr>,
                trace = trace (mach y) @ [ClearTimeout (nextTimer y - 1), SetTimeout (nextTimer y) 300]\<rparr>,
       timers := [(nextTimer y, t + 300, tmp)],
       nextTimer := Suc (nextTimer y),
       clock := t,
       documents := (documents y)(tmp := c)\<rparr>"
    unfolding y1_def using Cons.prems(1-6) clk early by (rule step_pending)
  have r1: "run h y1 (map (\<lambda>(t, txt). Edit t tmp txt) es) =
     y1\<lparr>mach := \<lparr>sess = (sess (mach y1))\<lparr>syncTimer := Some (nextTimer y1 + length es - 1)\<rparr>,
                trace = trace (mach y1) @
                  concat (map (\<lambda>i. [ClearTimeout (nextTimer y1 - 1 + i), SetTimeout (nextTimer y1 + i) 300])
                              [0..<length es])\<rparr>,
       timers := [(nextTimer y1 + length es - 1, fst (last ((clock y1, documents y1 tmp) # es)) + 300, tmp)],
       nextTimer := nextTimer y1 + length es,
       clock := fst (last ((clock y1, documents y1 tmp) # es)),
       documents := (documents y1)(tmp := snd (last ((clock y1, documents y1 tmp) # es)))\<rparr>"
    by (rule Cons.IH) (use Cons.prems rest in \<open>simp_all add: s1\<close>)
  have run: "run h y (map (\<lambda>(t, txt). Edit t tmp txt) (e # es)) =
             run h y1 (map (\<lambda>(t, txt). Edit t tmp txt) es)"
    by (simp add: run_def e y1_def)
  have shift: "concat (map (\<lambda>i. [ClearTimeout (nextTimer y - 1 + i), SetTimeout (nextTimer y + i) 300])
                  [0..<length (e # es)]) =
        [ClearTimeout (nextTimer y - 1), SetTimeout (nextTimer y) 300] @
        concat (map (\<lambda>i. [ClearTimeout (nextTimer y + i), SetTimeout (Suc (nextTimer y) + i) 300])
                  [0..<length es])"
  proof -
    have "[0..<length (e # es)] = 0 # map Suc [0..<length es]"
      by (simp add: upt_conv_Cons map_Suc_upt del: upt_Suc)
    then show ?thesis using Cons.prems(7) by (simp add: comp_def)
  qed
  define L where "L = last ((t, c) # es)"
  have l0: "last ((clock y, documents y tmp) # e # es) = L"
    by (simp add: L_def e)
  have l1: "last ((clock y1, documents y1 tmp) # es) = L"
    by (simp add: L_def s1)
  show ?case
    unfolding run r1 shift l0 l1 using Cons.prems(7) by (simp add: s1) (simp add: fun_upd_def)
qed


lemma run_quiet:
  assumes tmp: "tempFilePath (sess (mach y)) = Some tmp" and ne: "tmp \<noteq> []"
    and u: "activeOriginalUri (sess (mach y)) = Some u" and r: "activeRange (sess (mach y)) = Some r"
    and idle: "timers y = []" and clk: "clock y \<le> t1"
    and quiet: "withinQuietWindow t1 rest"
  shows "run h y (map (\<lambda>(t, c). Edit t tmp c) ((t1, c1) # rest)) =
     y\<lparr>mach := \<lparr>sess = (sess (mach y))\<lparr>syncTimer := Some (nextTimer y + length rest)\<rparr>,
                trace = trace (mach y) @
                  (case syncTimer (sess (mach y)) of None \<Rightarrow> [] | Some k \<Rightarrow> [ClearTimeout k]) @
                  [SetTimeout (nextTimer y) 300] @
                  concat (map (\<lambda>i. [ClearTimeout (nextTimer y + i), SetTimeout (nextTimer y + i + 1) 300])
                              [0..<length rest])\<rparr>,
       timers := [(nextTimer y + length rest, fst (last ((t1, c1) # rest)) + 300, tmp)],
       nextTimer := nextTimer y + length rest + 1,
       clock := fst (last ((t1, c1) # rest)),
       documents := (documents y)(tmp := snd (last ((t1, c1) # rest)))\<rparr>"
proof -
  define y1 where "y1 = step h y (Edit t1 tmp c1)"
  have s1: "y1 =
     y\<lparr>mach := \<lparr>sess = (sess (mach y))\<lparr>syncTimer := Some (nextTimer y)\<rparr>,
                trace = trace (mach y) @
                  (case syncTimer (sess (mach y)) of None \<Rightarrow> [] | Some k \<Rightarrow> [ClearTimeout k]) @
                  [SetTimeout (nextTimer y) 300]\<rparr>,
       timers := [(nextTimer y, t1 + 300, tmp)],
       nextTimer := Suc (nextTimer y),
       clock := t1,
       documents := (documents y)(tmp := c1)\<rparr>"
    unfolding y1_def using tmp ne u r idle clk by (rule step_first)
  have run: "run h y (map (\<lambda>(t, c). Edit t tmp c) ((t1, c1) # rest)) =
             run h y1 (map (\<lambda>(t, c). Edit t tmp c) rest)"
    by (simp add: run_def y1_def)
  have r1: "run h y1 (map (\<lambda>(t, c). Edit t tmp c) rest) =
     y1\<lparr>mach := \<lparr>sess = (sess (mach y1))\<lparr>syncTimer := Some (nextTimer y1 + length rest - 1)\<rparr>,
                trace = trace (mach y1) @
                  concat (map (\<lambda>i. [ClearTimeout (nextTimer y1 - 1 + i), SetTimeout (nextTimer y1 + i) 300])
                              [0..<length rest])\<rparr>,
       timers := [(nextTimer y1 + length rest - 1, fst (last ((clock y1, documents y1 tmp) # rest)) + 300, tmp)],
       nextTimer := nextTimer y1 + length rest,
       clock := fst (last ((clock y1, documents y1 tmp) # rest)),
       documents := (documents y1)(tmp := snd (last ((clock y1, documents y1 tmp) # rest)))\<rparr>"
    by (rule run_pending [where u = u and r = r]) (use tmp ne u r quiet in \<open>simp_all add: s1\<close>)
  have l1: "last ((clock y1, documents y1 tmp) # rest) = last ((t1, c1) # rest)"
    by (simp add: s1)
  define L where "L = last ((t1, c1) # rest)"
  show ?thesis
    unfolding run r1 l1 L_def [symmetric] by (simp add: s1)
qed

text \<open>
  C8. In the auto-sync variant, with a session active and no timer pending, take edits of
  the detached buffer of which each comes less than 300 ms after the one before it. While
  they arrive no write-back is asked for: the first edit sets a timer, and every later edit
  clears the timer that is pending and sets a new one, so that one timer is pending after the
  last edit. Once 300 ms have passed since the last edit, that timer has fired and has asked
  for one write-back, of the content after the last edit with the indent added, and no timer
  is left.
\<close>

theorem debounce_single_writeback:
  assumes tmp: "tempFilePath (sess (mach y)) = Some tmp" and ne: "tmp \<noteq> []"
    and u: "activeOriginalUri (sess (mach y)) = Some u" and r: "activeRange (sess (mach y)) = Some r"
    and idle: "timers y = []" and clk: "clock y \<le> t1"
    and quiet: "withinQuietWindow t1 rest"
    and late: "fst (last ((t1, c1) # rest)) + 300 \<le> tf"
  shows "timers (run h y (map (\<lambda>(t, c). Edit t tmp c) ((t1, c1) # rest))) =
           [(nextTimer y + length rest, fst (last ((t1, c1) # rest)) + 300, tmp)] \<and>
         trace (mach (run h y (map (\<lambda>(t, c). Edit t tmp c) ((t1, c1) # rest)))) =
           trace (mach y) @
           (case syncTimer (sess (mach y)) of None \<Rightarrow> [] | Some k \<Rightarrow> [ClearTimeout k]) @
           [SetTimeout (nextTimer y) 300] @
           concat (map (\<lambda>i. [ClearTimeout (nextTimer y + i), SetTimeout (nextTimer y + i + 1) 300])
                       [0..<length rest]) \<and>
         trace (mach (advance h tf (run h y (map (\<lambda>(t, c). Edit t tmp c) ((t1, c1) # rest))))) =
           trace (mach (run h y (map (\<lambda>(t, c). Edit t tmp c) ((t1, c1) # rest)))) @
           [ApplyEdit u r (addIndent (snd (last ((t1, c1) # rest))) (baseIndent (sess (mach y))))] \<and>
         timers (advance h tf (run h y (map (\<lambda>(t, c). Edit t tmp c) ((t1, c1) # rest)))) = []"
proof -
  define L where "L = last ((t1, c1) # rest)"
  define yq where "yq = run h y (map (\<lambda>(t, c). Edit t tmp c) ((t1, c1) # rest))"
  note q = run_quiet [OF tmp ne u r idle clk quiet, of h c1, folded L_def yq_def]
  have tq: "timers yq = [(nextTimer y + length rest, fst L + 300, tmp)]"
    and dq: "documents yq tmp = snd L"
    and uq: "activeOriginalUri (sess (mach yq)) = Some u"
    and rq: "activeRange (sess (mach yq)) = Some r"
    and bq: "baseIndent (sess (mach yq)) = baseIndent (sess (mach y))"
    and trq: "trace (mach yq) = trace (mach y) @
           (case syncTimer (sess (mach y)) of None \<Rightarrow> [] | Some k \<Rightarrow> [ClearTimeout k]) @
           [SetTimeout (nextTimer y) 300] @
           concat (map (\<lambda>i. [ClearTimeout (nextTimer y + i), SetTimeout (nextTimer y + i + 1) 300])
                       [0..<length rest])"
    using u r by (simp_all add: q)
  have due: "fst L + 300 \<le> tf" using late by (simp add: L_def)
  have fire: "fireDue h tf (documents yq) (timers yq) (mach yq) =
              ([], snd (syncCallback h (snd L) (mach yq)))"
    using due by (simp add: tq dq)
  have adv: "advance h tf yq =
             yq\<lparr>timers := [], mach := snd (syncCallback h (snd L) (mach yq)), clock := max (clock yq) tf\<rparr>"
    by (simp add: advance_def fire)
  have tr: "trace (mach (advance h tf yq)) =
            trace (mach yq) @ [ApplyEdit u r (addIndent (snd L) (baseIndent (sess (mach y))))]"
    by (simp add: adv syncCallback_trace [OF uq rq] bq)
  show ?thesis
    unfolding L_def [symmetric] yq_def [symmetric] using tq trq tr adv by simp
qed

text \<open>Three edits at 1000, 1100 and 1399 ms, and the clock moved to 1699 ms.\<close>

theorem debounce_single_writeback_witness:
  "trace (mach (advance exampleHost 1699 (run exampleHost exampleSystem
      [Edit 1000 (js ''/p/.narrow.a.js'') (js ''a''),
       Edit 1100 (js ''/p/.narrow.a.js'') (js ''b''),
       Edit 1399 (js ''/p/.narrow.a.js'') (js ''c'')]))) =
     [SetTimeout 0 300, ClearTimeout 0, SetTimeout 1 300, ClearTimeout 1, SetTimeout 2 300,
      ApplyEdit (js ''/p/a.js'')
        \<lparr>start = \<lparr>line = 1, character = 0\<rparr>, end' = \<lparr>line = 2, character = 10\<rparr>\<rparr>
        (js ''    c'')]"
proof -
  let ?tmp = "js ''/p/.narrow.a.js''"
  let ?r = "\<lparr>start = \<lparr>line = 1, character = 0\<rparr>, end' = \<lparr>line = 2, character = 10\<rparr>\<rparr>"
  let ?rest = "[(1100, js ''b''), (1399, js ''c'')]"
  have tmp: "tempFilePath (sess (mach exampleSystem)) = Some ?tmp" and ne: "?tmp \<noteq> []"
    and u: "activeOriginalUri (sess (mach exampleSystem)) = Some (js ''/p/a.js'')"
    and r: "activeRange (sess (mach exampleSystem)) = Some ?r"
    and idle: "timers exampleSystem = []" and clk: "clock exampleSystem \<le> 1000"
    by (simp_all add: exampleSystem_def exampleSession_def js_def)
  have quiet: "withinQuietWindow 1000 ?rest" by simp
  have late: "fst (last ((1000, js ''a'') # ?rest)) + 300 \<le> (1699::nat)" by simp
  have a: "addIndent (js ''c'') (js ''    '') = js ''    c''" by code_simp
  have up: "[0..<2] = [0, Suc 0]" by (simp add: upt_rec)
  show ?thesis
    using debounce_single_writeback [OF tmp ne u r idle clk quiet late, of exampleHost]
    by (simp add: exampleSystem_def exampleSession_def a up)
qed

end
